theory Spec2Isabelle
  imports Main
begin

section \<open>Strings and JavaScript values\<close>

text \<open>
  A JavaScript string is modelled as a \<^typ>\<open>string\<close> whose characters are read as the
  code points U+0000 .. U+00FF (Latin-1), which covers the German letters the program
  names (a-umlaut is \<open>CHR 0xE4\<close>, o-umlaut \<open>CHR 0xF6\<close>, u-umlaut \<open>CHR 0xFC\<close>, sharp s
  \<open>CHR 0xDF\<close>).  A field that holds a string, \<open>null\<close> or \<open>undefined\<close> is a
  \<^typ>\<open>string option\<close>, with \<open>None\<close> for \<open>null\<close> and \<open>undefined\<close>.
\<close>

definition truthy :: "string option \<Rightarrow> bool" where
  \<comment> \<open>JavaScript truthiness of a string-or-null value: \<open>null\<close>, \<open>undefined\<close> and \<open>''\<close> are falsy.\<close>
  "truthy v = (case v of None \<Rightarrow> False | Some s \<Rightarrow> s \<noteq> [])"

definition or_empty :: "string option \<Rightarrow> string" where
  \<comment> \<open>\<open>(v || '')\<close>\<close>
  "or_empty v = (case v of None \<Rightarrow> [] | Some s \<Rightarrow> s)"

definition toLowerCase_char :: "char \<Rightarrow> char" where
  \<comment> \<open>\<open>String.prototype.toLowerCase\<close> on one Latin-1 code point: A-Z and U+00C0 .. U+00DE
      (without the multiplication sign U+00D7) move up by 32, everything else stays.\<close>
  "toLowerCase_char c =
     (let n = (of_char c :: nat)
      in if (65 \<le> n \<and> n \<le> 90) \<or> (192 \<le> n \<and> n \<le> 222 \<and> n \<noteq> 215)
         then char_of (n + 32) else c)"

definition toLowerCase :: "string \<Rightarrow> string" where
  "toLowerCase s = map toLowerCase_char s"

definition key_char :: "char \<Rightarrow> bool" where
  \<comment> \<open>The characters kept by \<open>.replace(/[^a-z\<dots>0-9]/g, '')\<close>: a-z, the three umlauts,
      sharp s and 0-9.\<close>
  "key_char c =
     (let n = (of_char c :: nat)
      in (97 \<le> n \<and> n \<le> 122) \<or> (48 \<le> n \<and> n \<le> 57)
         \<or> c = CHR 0xE4 \<or> c = CHR 0xF6 \<or> c = CHR 0xFC \<or> c = CHR 0xDF)"

definition is_digit :: "char \<Rightarrow> bool" where
  "is_digit c = (let n = (of_char c :: nat) in 48 \<le> n \<and> n \<le> 57)"

definition number_of :: "string \<Rightarrow> int" where
  \<comment> \<open>The value of a string of decimal digits.\<close>
  "number_of s = foldl (\<lambda>a c. 10 * a + (int (of_char c) - 48)) 0 s"

section \<open>The event record and the heap\<close>

text \<open>
  The object literal every adapter builds.  \<open>source\<close> is always assigned a string literal
  by the adapters, the other fields may be \<open>null\<close>.
\<close>

record event =
  name :: "string option"
  date :: "string option"
  venue :: "string option"
  address :: "string option"
  type :: "string option"
  url :: "string option"
  price :: "string option"
  source :: string
  description :: "string option"

text \<open>
  \<open>dedup\<close> assigns to fields of the objects it is given, so objects live in a store:
  a reference is an address, the heap maps addresses to records, and an array of events is
  a list of references (two positions may hold the same reference).
\<close>

type_synonym ref = nat
type_synonym heap = "ref \<Rightarrow> event"

text \<open>
  An address that holds no object reads as the record without any value.
\<close>

definition e0 :: event where
  "e0 = \<lparr>name = None, date = None, venue = None, address = None, type = None, url = None,
         price = None, source = [], description = None\<rparr>"

section \<open>Deduplicate and sort\<close>

definition key_of :: "event \<Rightarrow> string" where
  \<comment> \<open>\<open>(e.name || '').toLowerCase().replace(/[^a-z\<dots>0-9]/g, '').slice(0, 40) + '|' +
      (e.date || '').slice(0, 10)\<close>\<close>
  "key_of e =
     take 40 (filter key_char (toLowerCase (or_empty (name e))))
       @ ''|'' @ take 10 (or_empty (date e))"

definition merge_into :: "ref \<Rightarrow> ref \<Rightarrow> heap \<Rightarrow> heap" where
  \<comment> \<open>The \<open>else\<close> branch of the loop, \<open>ex = seen.get(key)\<close>: three assignments to the object
      \<open>ex\<close>, each reading the store the previous one left.\<close>
  "merge_into ex e h =
     (let h1 = (if \<not> truthy (price (h ex)) \<and> truthy (price (h e))
                then h(ex := (h ex)\<lparr>price := price (h e)\<rparr>) else h);
          h2 = (if \<not> truthy (venue (h1 ex)) \<and> truthy (venue (h1 e))
                then h1(ex := (h1 ex)\<lparr>venue := venue (h1 e)\<rparr>) else h1)
      in h2(ex := (h2 ex)\<lparr>source := source (h2 ex) @ '', '' @ source (h2 e)\<rparr>))"

text \<open>
  \<open>seen\<close> is a JavaScript \<open>Map\<close>: its entries are kept in the order in which their keys were
  first set, so it is an association list that is only ever extended at the end, and only
  with a key it does not hold yet.
\<close>

fun dedup_loop :: "ref list \<Rightarrow> (string \<times> ref) list \<Rightarrow> heap \<Rightarrow> (string \<times> ref) list \<times> heap" where
  "dedup_loop [] seen h = (seen, h)"
| "dedup_loop (e # es) seen h =
     (let key = key_of (h e)
      in case map_of seen key of
           None \<Rightarrow> dedup_loop es (seen @ [(key, e)]) h
         | Some ex \<Rightarrow> dedup_loop es seen (merge_into ex e h))"

text \<open>
  The numbers the comparator computes with: \<open>getTime()\<close> of a date (an integer number of
  milliseconds, or \<open>NaN\<close> for an invalid date), \<open>Infinity\<close>, and their differences.
\<close>

datatype jsnum = Fin int | PInf | NInf | NaN

fun js_minus :: "jsnum \<Rightarrow> jsnum \<Rightarrow> jsnum" where
  "js_minus (Fin a) (Fin b) = Fin (a - b)"
| "js_minus NaN _ = NaN"
| "js_minus _ NaN = NaN"
| "js_minus PInf PInf = NaN"
| "js_minus NInf NInf = NaN"
| "js_minus PInf _ = PInf"
| "js_minus NInf _ = NInf"
| "js_minus (Fin a) PInf = NInf"
| "js_minus (Fin a) NInf = PInf"

definition negative :: "jsnum \<Rightarrow> bool" where
  \<comment> \<open>\<open>v < 0\<close>, false for \<open>NaN\<close> (a comparator result \<open>NaN\<close> counts as \<open>+0\<close>).\<close>
  "negative v = (case v of Fin n \<Rightarrow> n < 0 | NInf \<Rightarrow> True | _ \<Rightarrow> False)"

text \<open>
  \<open>new Date(s).getTime()\<close> belongs to the JavaScript engine; it is the parameter
  \<open>getTime\<close>, with \<open>None\<close> for \<open>NaN\<close>.
\<close>

definition date_num :: "(string \<Rightarrow> int option) \<Rightarrow> event \<Rightarrow> jsnum" where
  \<comment> \<open>\<open>a.date ? new Date(a.date).getTime() : Infinity\<close>\<close>
  "date_num getTime a =
     (case date a of
        None \<Rightarrow> PInf
      | Some s \<Rightarrow> if s = [] then PInf
                  else (case getTime s of None \<Rightarrow> NaN | Some t \<Rightarrow> Fin t))"

definition compare_dates :: "(string \<Rightarrow> int option) \<Rightarrow> heap \<Rightarrow> ref \<Rightarrow> ref \<Rightarrow> jsnum" where
  \<comment> \<open>The arrow function given to \<open>sort\<close>: \<open>da - db\<close>.\<close>
  "compare_dates getTime h a b = js_minus (date_num getTime (h a)) (date_num getTime (h b))"

text \<open>
  \<open>Array.prototype.sort\<close> is a stable sort that places \<open>a\<close> before \<open>b\<close> when the comparator
  returns a negative number for \<open>(a, b)\<close>.  It is modelled by stable insertion: going
  from the last element to the first, each element is put into the sorted rest behind
  exactly the leading elements that compare less than it, so it stays in front of the
  later elements it ties with.  For a comparator that is a consistent ordering every
  stable sort computes this list; for an inconsistent one the language leaves the order to
  the engine.
\<close>

fun insert_sorted :: "('a \<Rightarrow> 'a \<Rightarrow> jsnum) \<Rightarrow> 'a \<Rightarrow> 'a list \<Rightarrow> 'a list" where
  "insert_sorted c x [] = [x]"
| "insert_sorted c x (y # ys) =
     (if negative (c y x) then y # insert_sorted c x ys else x # y # ys)"

fun array_sort :: "('a \<Rightarrow> 'a \<Rightarrow> jsnum) \<Rightarrow> 'a list \<Rightarrow> 'a list" where
  "array_sort c [] = []"
| "array_sort c (x # xs) = insert_sorted c x (array_sort c xs)"

definition dedup :: "(string \<Rightarrow> int option) \<Rightarrow> heap \<Rightarrow> ref list \<Rightarrow> ref list \<times> heap" where
  \<comment> \<open>Returns the new array \<open>[...seen.values()].sort(\<dots>)\<close> and the store after the loop.\<close>
  "dedup getTime h events =
     (case dedup_loop events [] h of
        (seen, h') \<Rightarrow> (array_sort (compare_dates getTime h') (map snd seen), h'))"

section \<open>Date range\<close>

text \<open>What a statement of the program can throw.\<close>

datatype error = TypeError | RangeError | URIError | NetworkError | BrowserError

text \<open>
  A \<open>Date\<close> object is its time value: \<open>None\<close> for an invalid date, otherwise the
  milliseconds since 1970-01-01T00:00:00 of local wall-clock time, in a zone without
  clock changes.  The functions of the date library follow on that reading: a day has
  \<open>MS_PER_DAY\<close> milliseconds, an invalid date stays invalid, and 1970-01-01 was a Thursday
  (\<open>getDay\<close> counts from Sunday, 0).
\<close>

type_synonym instant = "int option"

record DateRange =
  start :: instant
  end' :: instant

definition MS_PER_DAY :: int where
  "MS_PER_DAY = 86400000"

definition startOfDay :: "instant \<Rightarrow> instant" where
  "startOfDay d = map_option (\<lambda>t. t - t mod MS_PER_DAY) d"

definition endOfDay :: "instant \<Rightarrow> instant" where
  "endOfDay d = map_option (\<lambda>t. t - t mod MS_PER_DAY + (MS_PER_DAY - 1)) d"

definition addDays :: "instant \<Rightarrow> int \<Rightarrow> instant" where
  "addDays d n = map_option (\<lambda>t. t + n * MS_PER_DAY) d"

definition getDay :: "int \<Rightarrow> int" where
  "getDay t = (t div MS_PER_DAY + 4) mod 7"

text \<open>\<open>s.split(c)\<close> for a one-character separator.\<close>

fun split_on :: "char \<Rightarrow> string \<Rightarrow> string list" where
  "split_on c [] = [[]]"
| "split_on c (x # xs) =
     (if x = c then [] # split_on c xs
      else (case split_on c xs of p # ps \<Rightarrow> (x # p) # ps | [] \<Rightarrow> [[x]]))"

text \<open>
  \<open>getDateRange\<close>, with the current time \<open>now\<close> (\<open>new Date()\<close>, always valid) and the
  library's \<open>parseISO\<close> as parameters.  No statement of the function throws, so the result
  is always a range; the pattern \<open>[s, e]\<close> takes the first two pieces of the split and
  ignores further ones.  The last case of the split cannot occur (a string with a colon
  splits into at least two pieces).
\<close>

definition getDateRange :: "(string \<Rightarrow> instant) \<Rightarrow> int \<Rightarrow> string option \<Rightarrow> error + DateRange" where
  "getDateRange parseISO now dateStr =
     (if \<not> truthy dateStr
      then Inr \<lparr>start = startOfDay (Some now), end' = endOfDay (addDays (Some now) 7)\<rparr>
      else let s = or_empty dateStr in
        if CHR '':'' \<in> set s
        then (case split_on CHR '':'' s of
                a # b # _ \<Rightarrow> Inr \<lparr>start = startOfDay (parseISO a), end' = endOfDay (parseISO b)\<rparr>
              | _ \<Rightarrow> Inr \<lparr>start = None, end' = None\<rparr>)
        else if s = ''today''
        then Inr \<lparr>start = startOfDay (Some now), end' = endOfDay (Some now)\<rparr>
        else if s = ''weekend''
        then (let r = (6 - getDay now + 7) mod 7;
                  daysUntilSat = (if r = 0 then 7 else r);
                  sat = addDays (Some now) daysUntilSat
              in Inr \<lparr>start = startOfDay sat, end' = endOfDay (addDays sat 1)\<rparr>)
        else (let d = parseISO s
              in Inr \<lparr>start = startOfDay d, end' = endOfDay d\<rparr>))"

section \<open>String functions of the language\<close>

text \<open>
  White space as \<open>\s\<close> and \<open>trim\<close> read it, within Latin-1: tab, line feed, vertical tab,
  form feed, carriage return, space and no-break space.  The dot of a regular expression
  matches every character but a line terminator.
\<close>

definition is_space :: "char \<Rightarrow> bool" where
  "is_space c = (of_char c \<in> {9, 10, 11, 12, 13, 32, 160 :: nat})"

definition is_line_terminator :: "char \<Rightarrow> bool" where
  "is_line_terminator c = (of_char c \<in> {10, 13 :: nat})"

definition trim :: "string \<Rightarrow> string" where
  "trim s = rev (dropWhile is_space (rev (dropWhile is_space s)))"

text \<open>
  \<open>.replace(/\s+/g, ' ')\<close>: every run of white space becomes one space.
\<close>

function collapse_ws :: "string \<Rightarrow> string" where
  "collapse_ws [] = []"
| "collapse_ws (c # cs) =
     (if is_space c then CHR '' '' # collapse_ws (dropWhile is_space cs)
      else c # collapse_ws cs)"
  by pat_completeness auto

termination
  by (relation "measure length") (auto simp: less_Suc_eq_le length_dropWhile_le)

text \<open>
  \<open>startsWith\<close>, a test for a suffix, \<open>includes\<close> (here \<open>contains\<close>), \<open>join\<close>, and the
  idioms \<open>v || null\<close> and \<open>a || b\<close> on strings that may be null.
\<close>

definition startsWith :: "string \<Rightarrow> string \<Rightarrow> bool" where
  "startsWith s p = (take (length p) s = p)"

definition endsWith :: "string \<Rightarrow> string \<Rightarrow> bool" where
  "endsWith s p = (length p \<le> length s \<and> drop (length s - length p) s = p)"

fun contains :: "string \<Rightarrow> string \<Rightarrow> bool" where
  "contains [] p = (p = [])"
| "contains (c # cs) p = (startsWith (c # cs) p \<or> contains cs p)"

fun join :: "string \<Rightarrow> string list \<Rightarrow> string" where
  "join sep [] = []"
| "join sep [x] = x"
| "join sep (x # y # ys) = x @ sep @ join sep (y # ys)"

definition or_null :: "string option \<Rightarrow> string option" where
  "or_null v = (if truthy v then v else None)"

definition or_else :: "string option \<Rightarrow> string option \<Rightarrow> string option" where
  "or_else a b = (if truthy a then a else b)"

section \<open>The structured API adapter\<close>

text \<open>
  What \<open>fetchTicketmaster\<close> reads of one item of the response: \<open>e.name\<close>,
  \<open>e.dates?.start?.dateTime\<close> and \<open>localDate\<close>, the venues under \<open>e._embedded\<close> (an empty
  list when absent) with name, \<open>address.line1\<close> and \<open>city.name\<close>, the segment name of the
  first classification, \<open>e.url\<close>, the price ranges (each as its \<open>min\<close> printed the way a
  template literal prints it; \<open>None\<close> when the item has no \<open>priceRanges\<close>), \<open>e.info\<close> and
  \<open>e.pleaseNote\<close>.  A value of the response is a string or absent.
\<close>

record tm_venue =
  venue_name :: "string option"
  line1 :: "string option"
  venue_city :: "string option"

record tm_item =
  tm_name :: "string option"
  dateTime :: "string option"
  localDate :: "string option"
  venues :: "tm_venue list"
  segment_name :: "string option"
  tm_url :: "string option"
  priceRanges :: "string list option"
  info :: "string option"
  pleaseNote :: "string option"

text \<open>
  A provider result: the events and a status (\<open>ok (n Events)\<close>, \<open>skip\<close>, \<open>error: message\<close>).
  A request either fails (the library throws) or delivers data.
\<close>

datatype status = StatusOk nat | StatusSkip | StatusError error | StatusUnknownCity string

record ProviderResult =
  events :: "event list"
  status :: status

datatype 'a response = Failed | Data 'a

text \<open>
  The euro sign is outside Latin-1; it is kept as its three UTF-8 bytes, an opaque suffix.
\<close>

definition euro :: string where
  "euro = [CHR 0xE2, CHR 0x82, CHR 0xAC]"

definition first_venue :: "tm_item \<Rightarrow> (tm_venue \<Rightarrow> string option) \<Rightarrow> string option" where
  "first_venue e field = (case venues e of [] \<Rightarrow> None | v # _ \<Rightarrow> field v)"

text \<open>
  The object literal of the \<open>map\<close> callback.  \<open>e.priceRanges[0].min\<close> throws a TypeError when
  \<open>priceRanges\<close> is an empty array.
\<close>

definition tm_event :: "tm_item \<Rightarrow> error + event" where
  "tm_event e =
     (case (case priceRanges e of
              None \<Rightarrow> Inr None
            | Some [] \<Rightarrow> Inl TypeError
            | Some (m # _) \<Rightarrow> Inr (Some (''Ab '' @ m @ euro))) of
        Inl err \<Rightarrow> Inl err
      | Inr p \<Rightarrow>
          Inr \<lparr>name = tm_name e,
               date = or_else (dateTime e) (or_else (localDate e) None),
               venue = or_null (first_venue e venue_name),
               address = Some (join '', '' (map or_empty
                           (filter truthy [first_venue e line1, first_venue e venue_city]))),
               type = or_else (map_option toLowerCase (segment_name e)) (Some ''other''),
               url = tm_url e,
               price = p,
               source = ''ticketmaster'',
               description = or_null (Some (take 200
                               (or_empty (or_else (info e) (or_else (pleaseNote e) (Some []))))))\<rparr>)"

text \<open>
  \<open>Array.prototype.map\<close> with a callback that may throw: the first exception ends it.
\<close>

fun map_events :: "('a \<Rightarrow> error + event) \<Rightarrow> 'a list \<Rightarrow> error + event list" where
  "map_events f [] = Inr []"
| "map_events f (x # xs) =
     (case f x of
        Inl err \<Rightarrow> Inl err
      | Inr ev \<Rightarrow> (case map_events f xs of Inl err \<Rightarrow> Inl err | Inr evs \<Rightarrow> Inr (ev # evs)))"

text \<open>
  \<open>fetchTicketmaster\<close>, given the API key of the environment and the outcome of the request
  (\<open>data._embedded?.events\<close>, \<open>None\<close> when absent).  Every exception ends in the \<open>catch\<close>,
  which returns no events.
\<close>

definition fetchTicketmaster :: "string option \<Rightarrow> tm_item list option response \<Rightarrow> ProviderResult" where
  "fetchTicketmaster apiKey resp =
     (if \<not> truthy apiKey then \<lparr>events = [], status = StatusSkip\<rparr>
      else case resp of
             Failed \<Rightarrow> \<lparr>events = [], status = StatusError NetworkError\<rparr>
           | Data None \<Rightarrow> \<lparr>events = [], status = StatusOk 0\<rparr>
           | Data (Some items) \<Rightarrow>
               (case map_events tm_event items of
                  Inl err \<Rightarrow> \<lparr>events = [], status = StatusError err\<rparr>
                | Inr evs \<Rightarrow> \<lparr>events = evs, status = StatusOk (length evs)\<rparr>))"

section \<open>The municipal listing adapter\<close>

text \<open>
  The regular expressions of \<open>fetchGiessenDe\<close> and \<open>parseDateDE\<close>.  Each one is written as
  a matcher anchored at the start of a string; \<open>first_match\<close> tries it at every position from
  the left, as \<open>String.prototype.match\<close> does, and \<open>first_some\<close> takes the first success of
  a list of alternatives in the order the engine tries them.
\<close>

fun first_match :: "(string \<Rightarrow> 'a option) \<Rightarrow> string \<Rightarrow> 'a option" where
  "first_match m [] = m []"
| "first_match m (c # cs) = (case m (c # cs) of Some r \<Rightarrow> Some r | None \<Rightarrow> first_match m cs)"

fun first_some :: "'a option list \<Rightarrow> 'a option" where
  "first_some [] = None"
| "first_some (None # xs) = first_some xs"
| "first_some (Some x # xs) = Some x"

text \<open>
  \<open>\s+\<close> before a character that is not white space: the rest after the whole run.
  \<open>date_at\<close> is \<open>\d{2}\.\d{2}\.\d{4}\<close>, \<open>time_at\<close> is \<open>\d{2}:\d{2}\<close>.
\<close>

definition spaces_then :: "string \<Rightarrow> string option" where
  "spaces_then s = (case s of [] \<Rightarrow> None
                    | c # cs \<Rightarrow> if is_space c then Some (dropWhile is_space cs) else None)"

definition date_at :: "string \<Rightarrow> bool" where
  "date_at s \<longleftrightarrow>
     10 \<le> length s \<and> list_all is_digit (take 2 s) \<and> s ! 2 = CHR ''.''
       \<and> list_all is_digit (take 2 (drop 3 s)) \<and> s ! 5 = CHR ''.''
       \<and> list_all is_digit (take 4 (drop 6 s))"

definition time_at :: "string \<Rightarrow> bool" where
  "time_at s \<longleftrightarrow>
     5 \<le> length s \<and> list_all is_digit (take 2 s) \<and> s ! 2 = CHR '':''
       \<and> list_all is_digit (take 2 (drop 3 s))"

text \<open>
  \<open>singleMatch\<close>: \<open>(\d{2}\.\d{2}\.\d{4})\s+(\d{2}:\d{2})(?:\s+bis\s+(\d{2}:\d{2}))?\s*Uhr\<close>,
  returning groups 1 and 2.  \<open>rangeMatch\<close>: \<open>(\d{2}\.\d{2}\.\d{4})\s+bis\s+(\d{2}\.\d{2}\.\d{4})\<close>.
  \<open>dateOnly\<close>: \<open>(\d{2}\.\d{2}\.\d{4})\<close>.
\<close>

definition single_at :: "string \<Rightarrow> (string \<times> string) option" where
  "single_at s =
     (if date_at s
      then (case spaces_then (drop 10 s) of
              None \<Rightarrow> None
            | Some r \<Rightarrow>
                if time_at r
                then (let rest = drop 5 r;
                          with_end =
                            (case spaces_then rest of
                               None \<Rightarrow> False
                             | Some a \<Rightarrow>
                                 startsWith a ''bis'' \<and>
                                 (case spaces_then (drop 3 a) of
                                    None \<Rightarrow> False
                                  | Some b \<Rightarrow>
                                      time_at b \<and>
                                      startsWith (dropWhile is_space (drop 5 b)) ''Uhr''))
                      in if with_end \<or> startsWith (dropWhile is_space rest) ''Uhr''
                         then Some (take 10 s, take 5 r) else None)
                else None)
      else None)"

definition range_at :: "string \<Rightarrow> (string \<times> string) option" where
  "range_at s =
     (if date_at s
      then (case spaces_then (drop 10 s) of
              None \<Rightarrow> None
            | Some a \<Rightarrow>
                if startsWith a ''bis''
                then (case spaces_then (drop 3 a) of
                        None \<Rightarrow> None
                      | Some b \<Rightarrow> if date_at b then Some (take 10 s, take 10 b) else None)
                else None)
      else None)"

definition dateOnly_at :: "string \<Rightarrow> string option" where
  "dateOnly_at s = (if date_at s then Some (take 10 s) else None)"

text \<open>
  \<open>name.split(/\d{2}\.\d{2}\.\d{4}/)[0]\<close>: the text before the first date.
\<close>

fun before_date :: "string \<Rightarrow> string" where
  "before_date [] = []"
| "before_date (c # cs) = (if date_at (c # cs) then [] else c # before_date cs)"

text \<open>
  \<open>parseDateDE\<close>: \<open>(\d{1,2})\.(\d{1,2})\.(\d{4})(?:\s+(\d{1,2}):(\d{2}))?\<close>.  One or two
  digits before a separator: two digits first, then one.
\<close>

definition digits_then :: "nat \<Rightarrow> char \<Rightarrow> string \<Rightarrow> (string \<times> string) option" where
  "digits_then n c s =
     (if n < length s \<and> list_all is_digit (take n s) \<and> s ! n = c
      then Some (take n s, drop (Suc n) s) else None)"

definition digits12_then :: "char \<Rightarrow> string \<Rightarrow> (string \<times> string) option" where
  "digits12_then c s =
     (case digits_then 2 c s of Some r \<Rightarrow> Some r | None \<Rightarrow> digits_then 1 c s)"

definition padStart2 :: "string \<Rightarrow> string" where
  "padStart2 s = replicate (2 - length s) CHR ''0'' @ s"

definition parseDateDE_at :: "string \<Rightarrow> string option" where
  "parseDateDE_at s =
     (case digits12_then CHR ''.'' s of
        None \<Rightarrow> None
      | Some (d, r1) \<Rightarrow>
          (case digits12_then CHR ''.'' r1 of
             None \<Rightarrow> None
           | Some (mo, r2) \<Rightarrow>
               if 4 \<le> length r2 \<and> list_all is_digit (take 4 r2)
               then (let y = take 4 r2;
                         hm = (case spaces_then (drop 4 r2) of
                                 None \<Rightarrow> None
                               | Some r4 \<Rightarrow>
                                   (case digits12_then CHR '':'' r4 of
                                      None \<Rightarrow> None
                                    | Some (h, r5) \<Rightarrow>
                                        if 2 \<le> length r5 \<and> list_all is_digit (take 2 r5)
                                        then Some (h, take 2 r5) else None));
                         h = (case hm of None \<Rightarrow> ''00'' | Some (h, _) \<Rightarrow> h);
                         min = (case hm of None \<Rightarrow> ''00'' | Some (_, m) \<Rightarrow> m)
                     in Some (y @ ''-'' @ padStart2 mo @ ''-'' @ padStart2 d @ ''T''
                                @ padStart2 h @ '':'' @ padStart2 min @ '':00''))
               else None))"

definition parseDateDE :: "string option \<Rightarrow> string option" where
  "parseDateDE str = (if \<not> truthy str then None else first_match parseDateDE_at (or_empty str))"

text \<open>
  The variables \<open>date\<close> and \<open>dateEnd\<close> after the three matches: the first pattern that
  matches decides, in the order single date with time, range, bare date.
\<close>

definition extract_dates :: "string \<Rightarrow> string option \<times> string option" where
  "extract_dates text' =
     (case first_match single_at text' of
        Some (d, t) \<Rightarrow> (parseDateDE (Some (d @ '' '' @ t)), None)
      | None \<Rightarrow>
          (case first_match range_at text' of
             Some (a, b) \<Rightarrow> (parseDateDE (Some a), parseDateDE (Some b))
           | None \<Rightarrow>
               (case first_match dateOnly_at text' of
                  Some d \<Rightarrow> (parseDateDE (Some d), None)
                | None \<Rightarrow> (None, None))))"

text \<open>
  \<open>slugMatch\<close>: \<open>Veranstaltungen\/([^.?]+)\<close>, group 1; and \<open>.replace(/\.php$/, '')\<close>.
\<close>

definition slug_at :: "string \<Rightarrow> string option" where
  "slug_at s =
     (if startsWith s ''Veranstaltungen/''
      then (let g = takeWhile (\<lambda>c. c \<noteq> CHR ''.'' \<and> c \<noteq> CHR ''?'') (drop 16 s)
            in if g = [] then None else Some g)
      else None)"

definition strip_php :: "string \<Rightarrow> string" where
  "strip_php s = (if endsWith s ''.php'' then take (length s - 4) s else s)"

text \<open>
  A lazy \<open>(.+?)\<close> followed by the rest of a pattern: the shortest non-empty run of
  characters other than line terminators after which \<open>tail\<close> matches, with what follows.
\<close>

fun lazy_until :: "(string \<Rightarrow> bool) \<Rightarrow> string \<Rightarrow> (string \<times> string) option" where
  "lazy_until tail [] = None"
| "lazy_until tail (c # cs) =
     (if is_line_terminator c then None
      else if tail cs then Some ([c], cs)
      else map_option (\<lambda>(m, r). (c # m, r)) (lazy_until tail cs))"

text \<open>
  The two replacements on \<open>rawText\<close>: \<open>/^(c)\s*.+?\s{2,}/\<close> and \<open>/^(c)\s*/\<close>, where
  \<open>(c)\<close> is the copyright sign \<open>CHR 0xA9\<close>.  The greedy \<open>\s*\<close> gives back one character
  at a time when the rest does not match.
\<close>

definition two_spaces :: "string \<Rightarrow> bool" where
  "two_spaces s = (case s of a # b # _ \<Rightarrow> is_space a \<and> is_space b | _ \<Rightarrow> False)"

definition strip_author :: "string \<Rightarrow> string" where
  "strip_author s =
     (case s of
        [] \<Rightarrow> s
      | c # cs \<Rightarrow>
          if c = CHR 0xA9
          then (case first_some (map (\<lambda>n. lazy_until two_spaces (drop n cs))
                                  (rev [0 ..< Suc (length (takeWhile is_space cs))])) of
                  Some (m, r) \<Rightarrow> dropWhile is_space r
                | None \<Rightarrow> s)
          else s)"

definition strip_mark :: "string \<Rightarrow> string" where
  "strip_mark s = (case s of [] \<Rightarrow> s | c # cs \<Rightarrow> if c = CHR 0xA9 then dropWhile is_space cs else s)"

text \<open>
  The labels of the navigation pattern, in lower case.  The pattern is case-insensitive
  and consists of ASCII letters, digits and spaces, so a name matches it exactly when its
  lower-case form is one of the labels.
\<close>

definition nav_labels :: "string list" where
  "nav_labels = [''heute'', ''morgen'', ''diese woche'', ''dieses wochenende'', ''4 wochen'',
                 ''veranstaltungen'', ''musikalischer sommer'', ''raumkataster'', ''index'']"

text \<open>
  \<open>descMatch\<close>: \<open>Uhr\s+(.+?)(?:\s+Mehr\s*\.\.\.)?$\<close>, group 1, and \<open>afterDate\<close>:
  \<open>\d{4}\s+(.{10,}?)$\<close>, group 1.
\<close>

definition more_tail :: "string \<Rightarrow> bool" where
  "more_tail s \<longleftrightarrow>
     s = [] \<or> (case spaces_then s of
                  None \<Rightarrow> False
                | Some a \<Rightarrow> startsWith a ''Mehr'' \<and> dropWhile is_space (drop 4 a) = ''...'')"

definition desc_at :: "string \<Rightarrow> string option" where
  "desc_at s =
     (if startsWith s ''Uhr''
      then map_option fst
             (first_some (map (\<lambda>n. lazy_until more_tail (drop n (drop 3 s)))
                            (rev [1 ..< Suc (length (takeWhile is_space (drop 3 s)))])))
      else None)"

definition afterDate_at :: "string \<Rightarrow> string option" where
  "afterDate_at s =
     (if 4 \<le> length s \<and> list_all is_digit (take 4 s)
      then first_some (map (\<lambda>n. let r = drop n (drop 4 s)
                                 in if 10 \<le> length r \<and> \<not> list_ex is_line_terminator r
                                    then Some r else None)
                         (rev [1 ..< Suc (length (takeWhile is_space (drop 4 s)))]))
      else None)"

definition extract_description :: "string \<Rightarrow> string option" where
  "extract_description text' =
     (case first_match desc_at text' of
        Some d \<Rightarrow> Some (take 200 d)
      | None \<Rightarrow> map_option (take 200) (first_match afterDate_at text'))"

text \<open>
  A list item of the page as the callback reads it: the first link whose \<open>href\<close> contains
  \<open>/Veranstaltungen/\<close> (if any) with its \<open>href\<close> attribute and its text, and the text of
  the item.
\<close>

record anchor =
  href :: "string option"
  link_text :: string

record li_element =
  link :: "anchor option"
  el_text :: string

text \<open>
  \<open><\<close> on two time values, false when one of them is \<open>NaN\<close>; \<open>a > b\<close> is
  \<open>js_less b a\<close>.
\<close>

definition js_less :: "int option \<Rightarrow> int option \<Rightarrow> bool" where
  "js_less a b = (case (a, b) of (Some x, Some y) \<Rightarrow> x < y | _ \<Rightarrow> False)"

text \<open>
  The block \<open>if (date) { ... if (eventEndTs < startTs || eventTs > endTs) return; }\<close>:
  true when the item is skipped.
\<close>

definition date_filter_skips ::
  "(string \<Rightarrow> int option) \<Rightarrow> DateRange \<Rightarrow> string option \<Rightarrow> string option \<Rightarrow> bool" where
  "date_filter_skips getTime dateRange date' dateEnd =
     (if truthy date'
      then (let eventTs = getTime (or_empty date');
                eventEndTs = (if truthy dateEnd then getTime (or_empty dateEnd) else eventTs)
            in js_less eventEndTs (start dateRange) \<or> js_less (end' dateRange) eventTs)
      else False)"

text \<open>
  \<open>name\<close> after the block \<open>if (href) { ... }\<close>.  \<open>decodeURIComponent\<close> belongs to the
  engine and is a parameter; it throws a URIError on a malformed escape.
\<close>

definition slug_name :: "(string \<Rightarrow> error + string) \<Rightarrow> string option \<Rightarrow> error + string option" where
  "slug_name decodeURIComponent h =
     (if truthy h
      then (case first_match slug_at (or_empty h) of
              None \<Rightarrow> Inr None
            | Some slug \<Rightarrow>
                (case decodeURIComponent slug of
                   Inl err \<Rightarrow> Inl err
                 | Inr d \<Rightarrow>
                     Inr (Some (trim (strip_php
                            (map (\<lambda>c. if c = CHR ''-'' then CHR '' '' else c) d))))))
      else Inr None)"

text \<open>
  \<open>!name || name.length < 3\<close>
\<close>

definition too_short :: "string option \<Rightarrow> bool" where
  "too_short n \<longleftrightarrow> \<not> truthy n \<or> length (or_empty n) < 3"

definition BASE :: string where
  "BASE = ''https://www.giessen.de''"

text \<open>
  The callback of \<open>$('ul li').each\<close> on one list item, in two parts.  \<open>giessen_name\<close> is
  the part before the date patterns: it returns the link and the name of a candidate item,
  \<open>Inr None\<close> when the callback returns there (no link, no name of three characters, a
  navigation label, an index link), \<open>Inl\<close> when \<open>decodeURIComponent\<close> throws.
\<close>

definition giessen_name ::
  "(string \<Rightarrow> error + string) \<Rightarrow> li_element \<Rightarrow> error + (anchor \<times> string option) option" where
  "giessen_name decodeURIComponent el =
     (case link el of
        None \<Rightarrow> Inr None
      | Some a \<Rightarrow>
          (let rawText = trim (collapse_ws (link_text a))
           in case slug_name decodeURIComponent (href a) of
                Inl err \<Rightarrow> Inl err
              | Inr slug \<Rightarrow>
                  (let name' = (if too_short slug
                                then Some (trim (strip_mark (strip_author rawText)))
                                else slug)
                   in if too_short name' then Inr None
                      else if toLowerCase (or_empty name') \<in> set nav_labels then Inr None
                      else if truthy (href a) \<and> contains (or_empty (href a)) ''index.php?''
                      then Inr None
                      else Inr (Some (a, name')))))"

text \<open>
  \<open>giessen_item\<close> is the whole callback: \<open>Inr None\<close> when it returns without pushing,
  \<open>Inr (Some ev)\<close> when it pushes \<open>ev\<close>, \<open>Inl\<close> when it throws.  After the name it reads the
  dates of the item's text, applies the date filter and builds the event.
\<close>

definition giessen_item ::
  "(string \<Rightarrow> error + string) \<Rightarrow> (string \<Rightarrow> int option) \<Rightarrow> DateRange \<Rightarrow> li_element
     \<Rightarrow> error + event option" where
  "giessen_item decodeURIComponent getTime dateRange el =
     (case giessen_name decodeURIComponent el of
        Inl err \<Rightarrow> Inl err
      | Inr None \<Rightarrow> Inr None
      | Inr (Some (a, name')) \<Rightarrow>
          (let text' = trim (collapse_ws (el_text el))
           in case extract_dates text' of
                (date', dateEnd) \<Rightarrow>
                  if date_filter_skips getTime dateRange date' dateEnd
                  then Inr None
                  else Inr (Some
                    \<lparr>name = or_else (Some (trim (before_date (or_empty name')))) name',
                     date = date',
                     venue = None,
                     address = Some (''Gie'' @ [CHR 0xDF] @ ''en''),
                     type = Some ''other'',
                     url = (if truthy (href a)
                            then (if startsWith (or_empty (href a)) ''http''
                                  then href a
                                  else Some (BASE @ or_empty (href a)))
                            else None),
                     price = None,
                     source = ''giessen.de'',
                     description = extract_description text'\<rparr>)))"

text \<open>
  The loop over the list items and \<open>fetchGiessenDe\<close>: an exception in one item ends in the
  \<open>catch\<close>, which returns no events.
\<close>

fun giessen_each ::
  "(li_element \<Rightarrow> error + event option) \<Rightarrow> li_element list \<Rightarrow> error + event list" where
  "giessen_each f [] = Inr []"
| "giessen_each f (el # els) =
     (case f el of
        Inl err \<Rightarrow> Inl err
      | Inr r \<Rightarrow>
          (case giessen_each f els of
             Inl err \<Rightarrow> Inl err
           | Inr evs \<Rightarrow> Inr ((case r of None \<Rightarrow> [] | Some ev \<Rightarrow> [ev]) @ evs)))"

definition fetchGiessenDe ::
  "(string \<Rightarrow> error + string) \<Rightarrow> (string \<Rightarrow> int option) \<Rightarrow> DateRange
     \<Rightarrow> li_element list response \<Rightarrow> ProviderResult" where
  "fetchGiessenDe decodeURIComponent getTime dateRange resp =
     (case resp of
        Failed \<Rightarrow> \<lparr>events = [], status = StatusError NetworkError\<rparr>
      | Data els \<Rightarrow>
          (case giessen_each (giessen_item decodeURIComponent getTime dateRange) els of
             Inl err \<Rightarrow> \<lparr>events = [], status = StatusError err\<rparr>
           | Inr evs \<Rightarrow> \<lparr>events = evs, status = StatusOk (length evs)\<rparr>))"

section \<open>The rendered page adapter\<close>

text \<open>
  \<open>CITIES\<close>, and what the two \<open>evaluate\<close> callbacks read of the rendered page.  An entry
  of a JSON-LD script is \<open>None\<close> when it is \<open>null\<close> (reading \<open>item['@type']\<close> throws, which ends
  that script), a script is \<open>None\<close> when \<open>JSON.parse\<close> throws.  An element is read through
  its first heading-like child (its \<open>textContent\<close>), its first date element (the \<open>datetime\<close>
  attribute and the text), its first location element and its first link.  \<open>found\<close> holds
  the elements every selector of the list finds, in the order of the list.

  \<open>CITIES\<close> is an object literal, so \<open>CITIES[cityKey]\<close> also finds what the literal inherits
  from \<open>Object.prototype\<close>: for the keys of \<open>inherited_keys\<close> the lookup is a function or an
  object, which is truthy and has no \<open>url\<close>.
\<close>

record city =
  city_url :: string
  city_name :: string
  city_source :: string

definition CITIES :: "string \<Rightarrow> city option" where
  "CITIES = map_of
     [(''marburg'',
       \<lparr>city_url = ''https://www.marburg.de/kultur-und-tourismus/veranstaltungskalender/#/veranstaltungen'',
        city_name = ''Marburg'', city_source = ''marburg.de''\<rparr>),
      (''wetzlar'',
       \<lparr>city_url = ''https://www.wetzlar.de/leben-in-wetzlar/veranstaltungen/index.php#/veranstaltungen'',
        city_name = ''Wetzlar'', city_source = ''wetzlar.de''\<rparr>)]"

definition inherited_keys :: "string list" where
  "inherited_keys = [''constructor'', ''__defineGetter__'', ''__defineSetter__'', ''hasOwnProperty'',
     ''__lookupGetter__'', ''__lookupSetter__'', ''isPrototypeOf'', ''propertyIsEnumerable'',
     ''toString'', ''valueOf'', ''__proto__'', ''toLocaleString'']"

record ld_item =
  ld_type :: "string option"
  ld_name :: "string option"
  startDate :: "string option"
  location_name :: "string option"
  streetAddress :: "string option"
  ld_url :: "string option"
  ld_description :: "string option"
  isAccessibleForFree :: bool

record raw_event =
  raw_name :: "string option"
  raw_date :: "string option"
  raw_venue :: "string option"
  raw_address :: "string option"
  raw_url :: "string option"
  raw_description :: "string option"

record dom_element =
  heading :: "string option"
  date_el :: "(string option \<times> string) option"
  venue_el :: "string option"
  a_href :: "string option"

record frame =
  frame_url :: string
  ld_scripts :: "ld_item option list option list"
  found :: "dom_element list list"

record page =
  frames :: "frame list"
  main_items :: "dom_element list"

text \<open>
  The loop over the entries of one script, inside its \<open>try\<close>: events pushed before an
  exception stay.
\<close>

fun ld_events :: "(ld_item \<Rightarrow> 'a option) \<Rightarrow> ld_item option list \<Rightarrow> 'a list" where
  "ld_events f [] = []"
| "ld_events f (None # rest) = []"
| "ld_events f (Some item # rest) =
     (case f item of None \<Rightarrow> [] | Some ev \<Rightarrow> [ev]) @ ld_events f rest"

definition script_events :: "(ld_item \<Rightarrow> 'a option) \<Rightarrow> ld_item option list option \<Rightarrow> 'a list" where
  "script_events f script = (case script of None \<Rightarrow> [] | Some items \<Rightarrow> ld_events f items)"

definition deskline_ld :: "ld_item \<Rightarrow> raw_event option" where
  "deskline_ld item =
     (if ld_type item = Some ''Event''
      then Some \<lparr>raw_name = ld_name item,
                 raw_date = or_null (startDate item),
                 raw_venue = or_null (location_name item),
                 raw_address = or_null (streetAddress item),
                 raw_url = or_null (ld_url item),
                 raw_description = Some (take 200 (or_empty (ld_description item)))\<rparr>
      else None)"

text \<open>
  The selector with the most matches wins, the earlier one on a tie.
\<close>

definition pick_elements :: "dom_element list list \<Rightarrow> dom_element list" where
  "pick_elements founds =
     foldl (\<lambda>elements f. if length elements < length f then f else elements) [] founds"

definition el_date :: "dom_element \<Rightarrow> string option" where
  "el_date el =
     (case date_el el of
        None \<Rightarrow> None
      | Some (datetime, textContent) \<Rightarrow> or_else datetime (or_null (Some (trim textContent))))"

text \<open>
  The DOM loops of the frame and of the main page: an element without a name of at least
  three characters is skipped.
\<close>

definition frame_element :: "dom_element \<Rightarrow> raw_event option" where
  "frame_element el =
     (let name' = map_option trim (heading el)
      in if too_short name' then None
         else Some \<lparr>raw_name = name',
                    raw_date = el_date el,
                    raw_venue = or_null (map_option trim (venue_el el)),
                    raw_address = None,
                    raw_url = or_null (a_href el),
                    raw_description = None\<rparr>)"

definition main_element :: "dom_element \<Rightarrow> raw_event option" where
  "main_element el =
     (let name' = map_option trim (heading el)
      in if too_short name' then None
         else Some \<lparr>raw_name = name',
                    raw_date = el_date el,
                    raw_venue = None,
                    raw_address = None,
                    raw_url = or_null (a_href el),
                    raw_description = None\<rparr>)"

definition frame_events :: "frame \<Rightarrow> raw_event list" where
  "frame_events f =
     concat (map (script_events deskline_ld) (ld_scripts f))
       @ List.map_filter frame_element (pick_elements (found f))"

text \<open>
  The \<open>map\<close> that makes the events, and \<open>fetchDeskline\<close>, given the rendered session.  For an
  inherited key the browser is started and \<open>page.goto(undefined)\<close> throws, which ends in the
  \<open>catch\<close> like every failure of the session.
\<close>

definition normalize_event :: "city \<Rightarrow> raw_event \<Rightarrow> event" where
  "normalize_event c e =
     \<lparr>name = raw_name e,
      date = raw_date e,
      venue = raw_venue e,
      address = or_else (raw_address e) (Some (city_name c)),
      type = Some ''other'',
      url = raw_url e,
      price = None,
      source = city_source c,
      description = raw_description e\<rparr>"

definition fetchDeskline :: "string \<Rightarrow> page response \<Rightarrow> ProviderResult" where
  "fetchDeskline cityKey session =
     (case CITIES cityKey of
        None \<Rightarrow>
          if cityKey \<in> set inherited_keys
          then \<lparr>events = [], status = StatusError BrowserError\<rparr>
          else \<lparr>events = [], status = StatusUnknownCity cityKey\<rparr>
      | Some c \<Rightarrow>
          (case session of
             Failed \<Rightarrow> \<lparr>events = [], status = StatusError BrowserError\<rparr>
           | Data p \<Rightarrow>
               (let from_frames =
                      concat (map frame_events
                                (filter (\<lambda>f. contains (frame_url f) ''deskline'') (frames p)));
                    raw = (if from_frames = []
                           then List.map_filter main_element (main_items p)
                           else from_frames);
                    normalized = map (normalize_event c) raw
                in \<lparr>events = normalized, status = StatusOk (length normalized)\<rparr>)))"

section \<open>The Meetup adapter\<close>





section \<open>main\<close>





section \<open>Definitions used in the statements\<close>

text \<open>
  What the three assignments of the \<open>else\<close> branch make of the record \<open>ex\<close>, as a function of
  the two records.
\<close>

definition merged :: "event \<Rightarrow> event \<Rightarrow> event" where
  "merged ex e =
     ex\<lparr>price := (if \<not> truthy (price ex) \<and> truthy (price e) then price e else price ex),
        venue := (if \<not> truthy (venue ex) \<and> truthy (venue e) then venue e else venue ex),
        source := source ex @ '', '' @ source e\<rparr>"

text \<open>
  \<open>same_fixed a b\<close>: record \<open>b\<close> has the name, date, address, type, url and description of
  \<open>a\<close>.  \<open>grows a b\<close>: moreover a price or venue that \<open>a\<close> has is not lost in \<open>b\<close>.
\<close>

definition same_fixed :: "event \<Rightarrow> event \<Rightarrow> bool" where
  "same_fixed a b \<longleftrightarrow>
     name b = name a \<and> date b = date a \<and> address b = address a \<and> type b = type a
       \<and> url b = url a \<and> description b = description a"

definition grows :: "event \<Rightarrow> event \<Rightarrow> bool" where
  "grows a b \<longleftrightarrow>
     same_fixed a b
       \<and> (price a \<noteq> None \<longrightarrow> price b \<noteq> None) \<and> (truthy (price a) \<longrightarrow> truthy (price b))
       \<and> (venue a \<noteq> None \<longrightarrow> venue b \<noteq> None) \<and> (truthy (venue a) \<longrightarrow> truthy (venue b))"

text \<open>
  For an event \<open>e\<close> of the input: \<open>canonical\<close> is the first event of the input with the
  identity key of \<open>e\<close>, \<open>later_duplicates\<close> are the events of the input with that key that
  come after it, in their order.
\<close>

definition canonical :: "heap \<Rightarrow> ref list \<Rightarrow> ref \<Rightarrow> ref" where
  "canonical h input e = hd (filter (\<lambda>j. key_of (h j) = key_of (h e)) input)"

definition later_duplicates :: "heap \<Rightarrow> ref list \<Rightarrow> ref \<Rightarrow> ref list" where
  "later_duplicates h input e = tl (filter (\<lambda>j. key_of (h j) = key_of (h e)) input)"

text \<open>
  \<open>first_truthy v vs\<close>: the value \<open>v\<close> when it is not empty, otherwise the first of \<open>vs\<close> that
  is not empty, and \<open>v\<close> when there is none.  \<open>appended h c s js\<close>: the string \<open>s\<close> followed, for
  each \<open>j\<close> of \<open>js\<close> in order, by a comma, a space and the source of \<open>j\<close>; where \<open>j\<close> is the
  record \<open>c\<close> that is being extended, its source is the string built so far.
  \<open>merge_all h c r js\<close>: the record \<open>r\<close> after the events \<open>js\<close> have been merged into it one
  after the other.
\<close>

definition first_truthy :: "string option \<Rightarrow> string option list \<Rightarrow> string option" where
  "first_truthy v vs = (if truthy v then v else case filter truthy vs of [] \<Rightarrow> v | w # _ \<Rightarrow> w)"

fun appended :: "heap \<Rightarrow> ref \<Rightarrow> string \<Rightarrow> ref list \<Rightarrow> string" where
  "appended h c s [] = s"
| "appended h c s (j # js) = appended h c (s @ '', '' @ (if j = c then s else source (h j))) js"

fun merge_all :: "heap \<Rightarrow> ref \<Rightarrow> event \<Rightarrow> ref list \<Rightarrow> event" where
  "merge_all h c r [] = r"
| "merge_all h c r (j # js) = merge_all h c (merged r (if j = c then r else h j)) js"

text \<open>
  A reading of \<open>new Date(s).getTime()\<close> for the strings \<open>YYYY-MM-DDTHH:MM:SS\<close> that
  \<open>parseDateDE\<close> writes, as milliseconds of local wall-clock time since 1970-01-01T00:00:00.
  It instantiates the parameter \<open>getTime\<close> in the examples, whose date strings are either
  of that form with a day that exists, or hold no digit at all; the latter are invalid
  dates.
\<close>

definition days_from_civil :: "int \<Rightarrow> int \<Rightarrow> int \<Rightarrow> int" where
  "days_from_civil y m d =
     (let y' = (if m \<le> 2 then y - 1 else y);
          era = y' div 400;
          yoe = y' - era * 400;
          doy = (153 * (if m > 2 then m - 3 else m + 9) + 2) div 5 + d - 1;
          doe = yoe * 365 + yoe div 4 - yoe div 100 + doy
      in era * 146097 + doe - 719468)"

definition days_in_month :: "int \<Rightarrow> int \<Rightarrow> int" where
  "days_in_month y m =
     (if m = 2 then (if y mod 4 = 0 \<and> (y mod 100 \<noteq> 0 \<or> y mod 400 = 0) then 29 else 28)
      else if m = 4 \<or> m = 6 \<or> m = 9 \<or> m = 11 then 30 else 31)"

definition local_date_time :: "string \<Rightarrow> int option" where
  "local_date_time s =
     (if length s = 19 \<and> list_all is_digit (take 4 s) \<and> s ! 4 = CHR ''-''
         \<and> list_all is_digit (take 2 (drop 5 s)) \<and> s ! 7 = CHR ''-''
         \<and> list_all is_digit (take 2 (drop 8 s)) \<and> s ! 10 = CHR ''T''
         \<and> list_all is_digit (take 2 (drop 11 s)) \<and> s ! 13 = CHR '':''
         \<and> list_all is_digit (take 2 (drop 14 s)) \<and> s ! 16 = CHR '':''
         \<and> list_all is_digit (take 2 (drop 17 s))
      then (let y = number_of (take 4 s); mo = number_of (take 2 (drop 5 s));
                d = number_of (take 2 (drop 8 s)); hh = number_of (take 2 (drop 11 s));
                mi = number_of (take 2 (drop 14 s)); ss = number_of (take 2 (drop 17 s))
            in if 1 \<le> mo \<and> mo \<le> 12 \<and> 1 \<le> d \<and> d \<le> days_in_month y mo
                  \<and> hh \<le> 23 \<and> mi \<le> 59 \<and> ss \<le> 59
               then Some (((days_from_civil y mo d * 24 + hh) * 60 + mi) * 60000 + ss * 1000)
               else None)
      else None)"

text \<open>
  Example records: the two events of the specification's example of a merge, with further
  fields.
\<close>

definition ha :: heap where
 "ha = (\<lambda>_. e0)
   (0 := \<lparr>name = Some ''Stadtfest'', date = Some ''2026-06-01T18:00:00'', venue = None,
          address = Some ''Markt'', type = Some ''music'', url = None, price = None,
          source = ''a'', description = None\<rparr>,
    1 := \<lparr>name = Some ''stadtfest!'', date = Some ''2026-06-01T20:00:00'', venue = Some ''Halle'',
          address = None, type = Some ''other'', url = Some ''http://b'', price = Some ''10'',
          source = ''b'', description = Some ''d''\<rparr>)"

text \<open>
  Three records with one identity key: the first has no price and an empty venue, the
  second a price, the third another price and a venue.
\<close>

definition hc :: heap where
 "hc = (\<lambda>_. e0)
   (0 := e0\<lparr>name := Some ''Stadtfest'', date := Some ''2026-06-01T18:00:00'', venue := Some [],
            source := ''a''\<rparr>,
    1 := e0\<lparr>name := Some ''stadtfest!'', date := Some ''2026-06-01T20:00:00'', price := Some ''10'',
            url := Some ''http://b'', source := ''b''\<rparr>,
    2 := e0\<lparr>name := Some ''STADTFEST'', date := Some ''2026-06-01'', venue := Some ''Halle'',
            price := Some ''99'', source := ''c''\<rparr>)"

text \<open>
  A reading of \<open>parseISO\<close> for complete calendar dates \<open>YYYY-MM-DD\<close> (local midnight of
  that day); any other string is an invalid date here.  It instantiates the parameter
  \<open>parseISO\<close> in the examples.
\<close>

definition parseISO_calendar :: "string \<Rightarrow> instant" where
  "parseISO_calendar s =
     (if length s = 10 \<and> list_all is_digit (take 4 s) \<and> s ! 4 = CHR ''-''
         \<and> list_all is_digit (take 2 (drop 5 s)) \<and> s ! 7 = CHR ''-''
         \<and> list_all is_digit (take 2 (drop 8 s))
      then (let y = number_of (take 4 s); mo = number_of (take 2 (drop 5 s));
                d = number_of (take 2 (drop 8 s))
            in if 1 \<le> mo \<and> mo \<le> 12 \<and> 1 \<le> d \<and> d \<le> days_in_month y mo
               then Some (days_from_civil y mo d * MS_PER_DAY)
               else None)
      else None)"



text \<open>The offset of the next Saturday as the specification writes it.\<close>

definition daysUntilSaturday :: "int \<Rightarrow> int" where
  "daysUntilSaturday weekday = (let r = (6 - weekday + 7) mod 7 in if r = 0 then 7 else r)"

text \<open>
  The elements of a list whose key does not occur earlier in the list, in their order.
\<close>

fun first_occurrences :: "('a \<Rightarrow> 'k) \<Rightarrow> 'a list \<Rightarrow> 'a list" where
  "first_occurrences f [] = []"
| "first_occurrences f (x # xs) = x # first_occurrences f (filter (\<lambda>y. f y \<noteq> f x) xs)"

text \<open>
  Ascending order of sort keys: a time is in order before a later or equal time and before
  \<open>Infinity\<close> (no date); \<open>Infinity\<close> is in order only before \<open>Infinity\<close>.
\<close>

fun in_order :: "jsnum \<Rightarrow> jsnum \<Rightarrow> bool" where
  "in_order (Fin a) (Fin b) = (a \<le> b)"
| "in_order (Fin a) PInf = True"
| "in_order PInf PInf = True"
| "in_order _ _ = False"

text \<open>
  Example records: two dated events, one whose date string is not a date, two without a
  date.
\<close>

definition hb :: heap where
 "hb = (\<lambda>_. e0)
   (0 := e0\<lparr>name := Some ''Konzert'', date := Some ''2026-06-05T18:00:00'', source := ''a''\<rparr>,
    1 := e0\<lparr>name := Some ''Lesung'', date := Some ''TBA'', source := ''b''\<rparr>,
    2 := e0\<lparr>name := Some ''Markt'', date := Some ''2026-06-03T18:00:00'', source := ''c''\<rparr>,
    3 := e0\<lparr>name := Some ''Flohmarkt'', source := ''d''\<rparr>,
    4 := e0\<lparr>name := Some ''Theater'', source := ''e''\<rparr>)"

text \<open>
  Example inputs of the adapters.
\<close>

definition item0 :: tm_item where
  "item0 = \<lparr>tm_name = None, dateTime = Some ''2026-06-01T18:00:00'', localDate = Some ''2026-06-01'',
     venues = [\<lparr>venue_name = Some ''Halle'', line1 = Some ''Weg 1'', venue_city = Some ''Linden''\<rparr>],
     segment_name = Some ''Music'', tm_url = Some ''http://t'', priceRanges = Some [''12.5''],
     info = None, pleaseNote = Some ''Note''\<rparr>"

text \<open>
  A reading of \<open>decodeURIComponent\<close> that is exact on strings without a percent sign, the
  only ones the examples use: such a string decodes to itself.
\<close>

definition decode_plain :: "string \<Rightarrow> error + string" where
  "decode_plain s = (if CHR ''%'' \<in> set s then Inl URIError else Inr s)"

definition a1 :: anchor where
  "a1 = \<lparr>href = Some ''/Erleben/Veranstaltungen/Konzert-im-Park.php'', link_text = ''Konzert im Park''\<rparr>"

definition li1 :: li_element where
  "li1 = \<lparr>link = Some a1,
          el_text = ''Konzert  im Park 25.02.2026   18:00 Uhr Ein Abend Mehr ...''\<rparr>"

text \<open>
  The ranges from 17 to 24 February 2026 and of March 2026, as \<open>getDateRange\<close> returns them
  for \<open>2026-02-17:2026-02-24\<close> and \<open>2026-03-01:2026-03-31\<close>.
\<close>

definition feb :: DateRange where
  "feb = \<lparr>start = Some 1771286400000, end' = Some 1771977599999\<rparr>"

text \<open>
  The effective end of an item as the specification words it: its own end, or its start
  when it has no end.
\<close>

definition effective_end :: "(string \<Rightarrow> int option) \<Rightarrow> string option \<Rightarrow> string option \<Rightarrow> int option" where
  "effective_end getTime date' dateEnd =
     (if truthy dateEnd then getTime (or_empty dateEnd) else getTime (or_empty date'))"

definition item1 :: tm_item where
  "item1 = item0\<lparr>tm_name := Some []\<rparr>"

definition item2 :: tm_item where
  "item2 = item0\<lparr>tm_name := Some ''Stadtfest''\<rparr>"

definition el1 :: dom_element where
  "el1 = \<lparr>heading = Some ''  Orgelkonzert '', date_el = Some (Some ''2026-06-01T18:00:00'', ''1. Juni''),
          venue_el = Some ''Kirche'', a_href = None\<rparr>"

definition el2 :: dom_element where
  "el2 = \<lparr>heading = Some '' ab '', date_el = None, venue_el = None, a_href = None\<rparr>"

definition page1 :: page where
  "page1 = \<lparr>frames = [\<lparr>frame_url = ''https://web.deskline.net/x'', ld_scripts = [None],
                         found = [[], [el1, el2], [el1]]\<rparr>],
             main_items = []\<rparr>"


definition li2 :: li_element where
  "li2 = li1\<lparr>el_text := ''Konzert 10.02.2026 bis 17.02.2026 im Park''\<rparr>"

definition li3 :: li_element where
  "li3 = li1\<lparr>el_text := ''Konzert im Park''\<rparr>"

definition march :: DateRange where
  "march = \<lparr>start = Some 1772323200000, end' = Some 1775001599999\<rparr>"

definition li2_event :: event where
  "li2_event =
     \<lparr>name = Some ''Konzert im Park'', date = Some ''2026-02-10T00:00:00'', venue = None,
      address = Some (''Gie'' @ [CHR 0xDF] @ ''en''), type = Some ''other'',
      url = Some ''https://www.giessen.de/Erleben/Veranstaltungen/Konzert-im-Park.php'',
      price = None, source = ''giessen.de'', description = Some ''bis 17.02.2026 im Park''\<rparr>"


section \<open>The sort\<close>

lemma set_insert_sorted [simp]: "set (insert_sorted c x ys) = insert x (set ys)"
  by (induction ys) auto

lemma set_array_sort [simp]: "set (array_sort c xs) = set xs"
  by (induction xs) auto

lemma negative_asym: "negative (js_minus a b) \<Longrightarrow> \<not> negative (js_minus b a)"
  by (cases a; cases b) (auto simp: negative_def)

lemma negative_irrefl: "\<not> negative (js_minus a a)"
  by (cases a) (auto simp: negative_def)

lemma in_order_iff:
  "a \<noteq> NaN \<Longrightarrow> a \<noteq> NInf \<Longrightarrow> b \<noteq> NaN \<Longrightarrow> b \<noteq> NInf \<Longrightarrow>
   in_order a b \<longleftrightarrow> \<not> negative (js_minus b a)"
  by (cases a; cases b) (auto simp: negative_def)

lemma in_order_trans: "in_order a b \<Longrightarrow> in_order b c \<Longrightarrow> in_order a c"
  by (cases a; cases b; cases c) auto

lemma date_num_not_NInf [simp]: "date_num getTime e \<noteq> NInf"
  by (simp add: date_num_def split: option.splits)



lemma filter_insert_sorted:
  assumes "\<And>y. y \<in> set ys \<Longrightarrow> negative (c y x) \<Longrightarrow> P x \<Longrightarrow> \<not> P y"
  shows "filter P (insert_sorted c x ys) = (if P x then x # filter P ys else filter P ys)"
  using assms by (induction ys) auto

lemma filter_array_sort:
  assumes "\<And>x y. negative (c y x) \<Longrightarrow> P x \<Longrightarrow> \<not> P y"
  shows "filter P (array_sort c xs) = filter P xs"
proof (induction xs)
  case Nil
  then show ?case by simp
next
  case (Cons x xs)
  have "filter P (insert_sorted c x (array_sort c xs))
          = (if P x then x # filter P (array_sort c xs) else filter P (array_sort c xs))"
    by (rule filter_insert_sorted) (use assms in blast)
  with Cons show ?case by simp
qed




lemma insert_sorted_not_Nil [simp]: "insert_sorted c x ys \<noteq> []"
  by (cases ys) auto




lemma sorted_insert_sorted:
  assumes tot: "\<And>y. y \<in> set ys \<Longrightarrow> \<not> negative (c y x) \<Longrightarrow> le x y"
    and tot': "\<And>y. y \<in> set ys \<Longrightarrow> negative (c y x) \<Longrightarrow> le y x"
    and trans: "\<And>y z. y \<in> set ys \<Longrightarrow> z \<in> set ys \<Longrightarrow> le x y \<Longrightarrow> le y z \<Longrightarrow> le x z"
  shows "sorted_wrt le ys \<Longrightarrow> sorted_wrt le (insert_sorted c x ys)"
  using assms
proof (induction ys)
  case Nil
  then show ?case by simp
next
  case (Cons y ys)
  show ?case
  proof (cases "negative (c y x)")
    case True
    have "sorted_wrt le (insert_sorted c x ys)"
      using Cons.prems by (intro Cons.IH) auto
    moreover have "le y x" using Cons.prems(3) True by simp
    ultimately show ?thesis using True Cons.prems(1) by auto
  next
    case False
    then have xy: "le x y" using Cons.prems(2) by simp
    have "le x z" if "z \<in> set ys" for z
      using that xy Cons.prems(1,4) by auto
    with xy False Cons.prems(1) show ?thesis by auto
  qed
qed

lemma sorted_array_sort:
  assumes "\<forall>x \<in> set xs. k x \<noteq> NaN \<and> k x \<noteq> NInf"
  shows "sorted_wrt (\<lambda>a b. in_order (k a) (k b)) (array_sort (\<lambda>a b. js_minus (k a) (k b)) xs)"
  using assms
proof (induction xs)
  case Nil
  then show ?case by simp
next
  case (Cons x xs)
  let ?c = "\<lambda>a b. js_minus (k a) (k b)"
  from Cons have ih: "sorted_wrt (\<lambda>a b. in_order (k a) (k b)) (array_sort ?c xs)"
    by simp
  have valid: "k y \<noteq> NaN \<and> k y \<noteq> NInf" if "y \<in> set (x # xs)" for y
    using that Cons.prems by blast
  have "sorted_wrt (\<lambda>a b. in_order (k a) (k b)) (insert_sorted ?c x (array_sort ?c xs))"
  proof (rule sorted_insert_sorted [OF _ _ _ ih])
    fix y assume "y \<in> set (array_sort ?c xs)" and "\<not> negative (js_minus (k y) (k x))"
    then show "in_order (k x) (k y)"
      using valid [of x] valid [of y] by (simp add: in_order_iff)
  next
    fix y assume "y \<in> set (array_sort ?c xs)" and "negative (js_minus (k y) (k x))"
    then show "in_order (k y) (k x)"
      using valid [of x] valid [of y] negative_asym [of "k y" "k x"] by (simp add: in_order_iff)
  next
    fix y z assume "in_order (k x) (k y)" and "in_order (k y) (k z)"
    then show "in_order (k x) (k z)" by (rule in_order_trans)
  qed
  then show ?case by simp
qed

section \<open>The merge step and the loop\<close>

lemma merge_into_eq: "merge_into ex e h = h(ex := merged (h ex) (h e))"
  by (cases "ex = e") (auto simp: merge_into_def merged_def Let_def fun_eq_iff)

lemma merged_fields [simp]:
  "name (merged ex e) = name ex" "date (merged ex e) = date ex"
  "address (merged ex e) = address ex" "type (merged ex e) = type ex"
  "url (merged ex e) = url ex" "description (merged ex e) = description ex"
  by (simp_all add: merged_def)

lemma key_of_merged [simp]: "key_of (merged ex e) = key_of ex"
  by (simp add: key_of_def)

lemma key_of_merge_into [simp]: "key_of (merge_into ex e h r) = key_of (h r)"
  by (simp add: merge_into_eq)

lemma merged_price_mono: "truthy (price ex) \<Longrightarrow> price (merged ex e) = price ex"
  by (simp add: merged_def)

lemma merged_price_fill: "truthy (price e) \<Longrightarrow> truthy (price (merged ex e))"
  by (simp add: merged_def)

lemma merged_venue_fill: "truthy (venue e) \<Longrightarrow> truthy (venue (merged ex e))"
  by (simp add: merged_def)

lemma merged_price_nonnull: "price ex \<noteq> None \<Longrightarrow> price (merged ex e) \<noteq> None"
  by (auto simp: merged_def truthy_def split: option.splits)

lemma merged_venue_nonnull: "venue ex \<noteq> None \<Longrightarrow> venue (merged ex e) \<noteq> None"
  by (auto simp: merged_def truthy_def split: option.splits)

lemma grows_refl [simp]: "grows a a"
  by (simp add: grows_def same_fixed_def)

lemma grows_trans: "grows a b \<Longrightarrow> grows b c \<Longrightarrow> grows a c"
  by (auto simp: grows_def same_fixed_def)

lemma grows_merged: "grows ex (merged ex e)"
  by (auto simp: grows_def same_fixed_def merged_def truthy_def split: option.splits)


lemma grows_merge_into: "grows (h r) (merge_into ex e h r)"
  by (simp add: merge_into_eq grows_merged)

lemma dedup_loop_grows:
  "dedup_loop es seen h = (seen', h') \<Longrightarrow> grows (h r) (h' r)"
proof (induction es arbitrary: seen h)
  case Nil
  then show ?case by simp
next
  case (Cons e es)
  show ?case
  proof (cases "map_of seen (key_of (h e))")
    case None
    with Cons show ?thesis by (simp add: Let_def)
  next
    case (Some ex)
    with Cons.prems have "dedup_loop es seen (merge_into ex e h) = (seen', h')"
      by (simp add: Let_def)
    from Cons.IH [OF this] grows_merge_into [of h r ex e] show ?thesis
      by (blast intro: grows_trans)
  qed
qed

lemma dedup_loop_seen_mono:
  "dedup_loop es seen h = (seen', h') \<Longrightarrow> set seen \<subseteq> set seen'"
proof (induction es arbitrary: seen h)
  case Nil
  then show ?case by simp
next
  case (Cons e es)
  show ?case
  proof (cases "map_of seen (key_of (h e))")
    case None
    with Cons.prems have "dedup_loop es (seen @ [(key_of (h e), e)]) h = (seen', h')"
      by (simp add: Let_def)
    from Cons.IH [OF this] show ?thesis by simp
  next
    case (Some ex)
    with Cons.prems have "dedup_loop es seen (merge_into ex e h) = (seen', h')"
      by (simp add: Let_def)
    from Cons.IH [OF this] show ?thesis .
  qed
qed

lemma dedup_loop_values:
  "dedup_loop es seen h = (seen', h') \<Longrightarrow> snd ` set seen' \<subseteq> snd ` set seen \<union> set es"
proof (induction es arbitrary: seen h)
  case Nil
  then show ?case by simp
next
  case (Cons e es)
  show ?case
  proof (cases "map_of seen (key_of (h e))")
    case None
    with Cons.prems have "dedup_loop es (seen @ [(key_of (h e), e)]) h = (seen', h')"
      by (simp add: Let_def)
    from Cons.IH [OF this] show ?thesis by auto
  next
    case (Some ex)
    with Cons.prems have "dedup_loop es seen (merge_into ex e h) = (seen', h')"
      by (simp add: Let_def)
    from Cons.IH [OF this] show ?thesis by auto
  qed
qed

lemma dedup_loop_changed:
  "dedup_loop es seen h = (seen', h') \<Longrightarrow> h' r \<noteq> h r \<Longrightarrow> r \<in> snd ` set seen'"
proof (induction es arbitrary: seen h)
  case Nil
  then show ?case by simp
next
  case (Cons e es)
  show ?case
  proof (cases "map_of seen (key_of (h e))")
    case None
    with Cons.prems have "dedup_loop es (seen @ [(key_of (h e), e)]) h = (seen', h')"
      by (simp add: Let_def)
    from Cons.IH [OF this] Cons.prems(2) show ?thesis by simp
  next
    case (Some ex)
    with Cons.prems have run: "dedup_loop es seen (merge_into ex e h) = (seen', h')"
      by (simp add: Let_def)
    show ?thesis
    proof (cases "h' r = merge_into ex e h r")
      case False
      with Cons.IH [OF run] show ?thesis by simp
    next
      case True
      with Cons.prems(2) have "r = ex"
        by (auto simp: merge_into_eq split: if_splits)
      moreover from Some have "(key_of (h e), ex) \<in> set seen"
        by (rule map_of_SomeD)
      ultimately have "r \<in> snd ` set seen" by force
      with dedup_loop_seen_mono [OF run] show ?thesis by auto
    qed
  qed
qed

lemma dedup_loop_unique:
  "distinct (map (key_of \<circ> h) es) \<Longrightarrow> key_of ` h ` set es \<inter> fst ` set seen = {} \<Longrightarrow>
   dedup_loop es seen h = (seen @ map (\<lambda>e. (key_of (h e), e)) es, h)"
proof (induction es arbitrary: seen)
  case Nil
  then show ?case by simp
next
  case (Cons e es)
  from Cons.prems(2) have "key_of (h e) \<notin> fst ` set seen" by auto
  then have none: "map_of seen (key_of (h e)) = None"
    by (simp add: map_of_eq_None_iff)
  have "key_of ` h ` set es \<inter> fst ` set (seen @ [(key_of (h e), e)]) = {}"
    using Cons.prems by auto
  with Cons.IH [of "seen @ [(key_of (h e), e)]"] Cons.prems(1) none show ?case
    by (simp add: Let_def)
qed

lemma dedup_loop_canonical:
  "dedup_loop es seen h = (seen', h') \<Longrightarrow> e \<in> set es \<Longrightarrow>
   \<exists>c. (key_of (h e), c) \<in> set seen'
     \<and> (truthy (price (h e)) \<longrightarrow> truthy (price (h' c)))
     \<and> (truthy (venue (h e)) \<longrightarrow> truthy (venue (h' c)))"
proof (induction es arbitrary: seen h)
  case Nil
  then show ?case by simp
next
  case (Cons x es)
  let ?k = "key_of (h x)"
  show ?case
  proof (cases "map_of seen ?k")
    case None
    with Cons.prems have run: "dedup_loop es (seen @ [(?k, x)]) h = (seen', h')"
      by (simp add: Let_def)
    show ?thesis
    proof (cases "e = x")
      case True
      from dedup_loop_seen_mono [OF run] have "(?k, x) \<in> set seen'" by auto
      moreover from dedup_loop_grows [OF run, of x]
      have "truthy (price (h x)) \<longrightarrow> truthy (price (h' x))"
        and "truthy (venue (h x)) \<longrightarrow> truthy (venue (h' x))"
        by (simp_all add: grows_def)
      ultimately show ?thesis using True by blast
    next
      case False
      with Cons.prems have "e \<in> set es" by simp
      from Cons.IH [OF run this] show ?thesis .
    qed
  next
    case (Some ex)
    let ?h1 = "merge_into ex x h"
    from Some Cons.prems have run: "dedup_loop es seen ?h1 = (seen', h')"
      by (simp add: Let_def)
    show ?thesis
    proof (cases "e = x")
      case True
      from Some have "(?k, ex) \<in> set seen" by (rule map_of_SomeD)
      with dedup_loop_seen_mono [OF run] have "(?k, ex) \<in> set seen'" by auto
      moreover have "truthy (price (h x)) \<longrightarrow> truthy (price (?h1 ex))"
        and "truthy (venue (h x)) \<longrightarrow> truthy (venue (?h1 ex))"
        by (simp_all add: merge_into_eq merged_price_fill merged_venue_fill)
      moreover from dedup_loop_grows [OF run, of ex]
      have "truthy (price (?h1 ex)) \<longrightarrow> truthy (price (h' ex))"
        and "truthy (venue (?h1 ex)) \<longrightarrow> truthy (venue (h' ex))"
        by (simp_all add: grows_def)
      ultimately show ?thesis using True by blast
    next
      case False
      with Cons.prems have "e \<in> set es" by simp
      from Cons.IH [OF run this] obtain c where c: "(key_of (?h1 e), c) \<in> set seen'"
        "truthy (price (?h1 e)) \<longrightarrow> truthy (price (h' c))"
        "truthy (venue (?h1 e)) \<longrightarrow> truthy (venue (h' c))" by blast
      from grows_merge_into [of h e ex x]
      have "truthy (price (h e)) \<longrightarrow> truthy (price (?h1 e))"
        and "truthy (venue (h e)) \<longrightarrow> truthy (venue (?h1 e))"
        by (simp_all add: grows_def)
      with c show ?thesis by auto
    qed
  qed
qed

lemma dedup_loop_keys:
  "dedup_loop es seen h = (seen', h') \<Longrightarrow> \<forall>(k, r) \<in> set seen. k = key_of (h r) \<Longrightarrow>
   \<forall>(k, r) \<in> set seen'. k = key_of (h r)"
proof (induction es arbitrary: seen h)
  case Nil
  then show ?case by simp
next
  case (Cons x es)
  show ?case
  proof (cases "map_of seen (key_of (h x))")
    case None
    with Cons.prems have run: "dedup_loop es (seen @ [(key_of (h x), x)]) h = (seen', h')"
      by (simp add: Let_def)
    from Cons.prems(2) have "\<forall>(k, r) \<in> set (seen @ [(key_of (h x), x)]). k = key_of (h r)"
      by auto
    from Cons.IH [OF run this] show ?thesis .
  next
    case (Some ex)
    with Cons.prems have run: "dedup_loop es seen (merge_into ex x h) = (seen', h')"
      by (simp add: Let_def)
    from Cons.prems(2) have "\<forall>(k, r) \<in> set seen. k = key_of (merge_into ex x h r)"
      by simp
    from Cons.IH [OF run this] show ?thesis by simp
  qed
qed

lemma dedup_loop_distinct:
  "dedup_loop es seen h = (seen', h') \<Longrightarrow> distinct (map fst seen) \<Longrightarrow> distinct (map fst seen')"
proof (induction es arbitrary: seen h)
  case Nil
  then show ?case by simp
next
  case (Cons x es)
  show ?case
  proof (cases "map_of seen (key_of (h x))")
    case None
    with Cons.prems have run: "dedup_loop es (seen @ [(key_of (h x), x)]) h = (seen', h')"
      by (simp add: Let_def)
    from None have "key_of (h x) \<notin> fst ` set seen" by (simp add: map_of_eq_None_iff)
    with Cons.prems(2) have "distinct (map fst (seen @ [(key_of (h x), x)]))" by simp
    from Cons.IH [OF run this] show ?thesis .
  next
    case (Some ex)
    with Cons.prems have run: "dedup_loop es seen (merge_into ex x h) = (seen', h')"
      by (simp add: Let_def)
    from Cons.IH [OF run Cons.prems(2)] show ?thesis .
  qed
qed

lemma dedup_loop_first_occurrences:
  "dedup_loop es seen h = (seen', h') \<Longrightarrow>
   map snd seen' = map snd seen
     @ first_occurrences (key_of \<circ> h) (filter (\<lambda>e. key_of (h e) \<notin> fst ` set seen) es)"
proof (induction es arbitrary: seen h)
  case Nil
  then show ?case by simp
next
  case (Cons x es)
  let ?k = "key_of (h x)"
  show ?case
  proof (cases "map_of seen ?k")
    case None
    with Cons.prems have run: "dedup_loop es (seen @ [(?k, x)]) h = (seen', h')"
      by (simp add: Let_def)
    from None have new: "?k \<notin> fst ` set seen" by (simp add: map_of_eq_None_iff)
    have "filter (\<lambda>e. key_of (h e) \<notin> fst ` set (seen @ [(?k, x)])) es
            = filter (\<lambda>y. (key_of \<circ> h) y \<noteq> (key_of \<circ> h) x)
                (filter (\<lambda>e. key_of (h e) \<notin> fst ` set seen) es)"
      by (auto intro: filter_cong)
    with Cons.IH [OF run] new show ?thesis by simp
  next
    case (Some ex)
    with Cons.prems have run: "dedup_loop es seen (merge_into ex x h) = (seen', h')"
      by (simp add: Let_def)
    from Some have old: "?k \<in> fst ` set seen"
      by (metis map_of_eq_None_iff option.distinct(1))
    have "key_of \<circ> merge_into ex x h = key_of \<circ> h" by (simp add: fun_eq_iff)
    with Cons.IH [OF run] old show ?thesis by simp
  qed
qed

lemma date_num_grows: "grows a b \<Longrightarrow> date_num getTime b = date_num getTime a"
  by (simp add: grows_def same_fixed_def date_num_def)



lemma merge_all_cong:
  "(\<And>j. j \<in> set js \<Longrightarrow> j \<noteq> c \<Longrightarrow> h1 j = h2 j) \<Longrightarrow> merge_all h1 c r js = merge_all h2 c r js"
  by (induction js arbitrary: r) auto

lemma merge_all_fixed: "same_fixed r (merge_all h c r js)"
  by (induction js arbitrary: r) (auto simp: same_fixed_def)

lemma merge_all_source: "source (merge_all h c r js) = appended h c (source r) js"
  by (induction js arbitrary: r) (auto simp: merged_def)

lemma merge_all_price:
  "(truthy (price (h c)) \<longrightarrow> truthy (price r)) \<Longrightarrow>
   price (merge_all h c r js) = first_truthy (price r) (map (price \<circ> h) js)"
proof (induction js arbitrary: r)
  case Nil
  then show ?case by (simp add: first_truthy_def)
next
  case (Cons j js)
  let ?r = "merged r (if j = c then r else h j)"
  have "truthy (price (h c)) \<longrightarrow> truthy (price ?r)"
    using Cons.prems by (auto simp: merged_def)
  from Cons.IH [OF this] show ?case
    using Cons.prems by (auto simp: merged_def first_truthy_def)
qed

lemma merge_all_venue:
  "(truthy (venue (h c)) \<longrightarrow> truthy (venue r)) \<Longrightarrow>
   venue (merge_all h c r js) = first_truthy (venue r) (map (venue \<circ> h) js)"
proof (induction js arbitrary: r)
  case Nil
  then show ?case by (simp add: first_truthy_def)
next
  case (Cons j js)
  let ?r = "merged r (if j = c then r else h j)"
  have "truthy (venue (h c)) \<longrightarrow> truthy (venue ?r)"
    using Cons.prems by (auto simp: merged_def)
  from Cons.IH [OF this] show ?case
    using Cons.prems by (auto simp: merged_def first_truthy_def)
qed

lemma appended_plain:
  "c \<notin> set js \<Longrightarrow> appended h c s js = s @ concat (map (\<lambda>j. '', '' @ source (h j)) js)"
  by (induction js arbitrary: s) auto

lemma first_truthy_keeps: "truthy v \<Longrightarrow> first_truthy v vs = v"
  by (simp add: first_truthy_def)

lemma first_truthy_fills: "w \<in> set (v # vs) \<Longrightarrow> truthy w \<Longrightarrow> truthy (first_truthy v vs)"
proof -
  assume w: "w \<in> set (v # vs)" "truthy w"
  show ?thesis
  proof (cases "truthy v")
    case True
    then show ?thesis by (simp add: first_truthy_def)
  next
    case False
    with w have "w \<in> set (filter truthy vs)" by auto
    then obtain a as where f: "filter truthy vs = a # as" by (cases "filter truthy vs") auto
    then have "a \<in> set (filter truthy vs)" by simp
    then have "truthy a" by simp
    with False f show ?thesis by (simp add: first_truthy_def)
  qed
qed

lemma hd_filter_first_occurrences:
  "x \<in> set (first_occurrences f xs) \<Longrightarrow> hd (filter (\<lambda>j. f j = f x) xs) = x"
proof (induction f xs rule: first_occurrences.induct)
  case (1 f)
  then show ?case by simp
next
  case (2 f y ys)
  show ?case
  proof (cases "x = y")
    case True
    then show ?thesis by simp
  next
    case False
    with "2.prems" have in': "x \<in> set (first_occurrences f (filter (\<lambda>z. f z \<noteq> f y) ys))" by simp
    have sub: "set (first_occurrences f zs) \<subseteq> set zs" for zs
      by (induction f zs rule: first_occurrences.induct) auto
    from in' sub have "x \<in> set (filter (\<lambda>z. f z \<noteq> f y) ys)" by blast
    then have ne: "f x \<noteq> f y" by simp
    have "filter (\<lambda>j. f j = f x) (filter (\<lambda>z. f z \<noteq> f y) ys) = filter (\<lambda>j. f j = f x) ys"
      using ne by (auto intro: filter_cong)
    with "2.IH" [OF in'] ne show ?thesis by auto
  qed
qed

lemma dedup_loop_merge_all:
  assumes "dedup_loop es seen h = (seen', h')"
    and "\<forall>(k, r) \<in> set seen. k = key_of (h r)" and "distinct (map fst seen)"
    and "(k, c) \<in> set seen'"
  shows "h' c = merge_all h c (h c)
           (if k \<in> fst ` set seen then filter (\<lambda>j. key_of (h j) = k) es
            else tl (filter (\<lambda>j. key_of (h j) = k) es))"
  using assms
proof (induction es arbitrary: seen h)
  case Nil
  then show ?case by force
next
  case (Cons x es)
  let ?kx = "key_of (h x)"
  show ?case
  proof (cases "map_of seen ?kx")
    case None
    let ?seen1 = "seen @ [(?kx, x)]"
    from None Cons.prems have run: "dedup_loop es ?seen1 h = (seen', h')"
      by (simp add: Let_def)
    from None have new: "?kx \<notin> fst ` set seen" by (simp add: map_of_eq_None_iff)
    have i1: "\<forall>(k, r) \<in> set ?seen1. k = key_of (h r)" using Cons.prems(2) by auto
    have i2: "distinct (map fst ?seen1)" using Cons.prems(3) new by simp
    note ih = Cons.IH [OF run i1 i2 Cons.prems(4)]
    show ?thesis
    proof (cases "k \<in> fst ` set seen")
      case True
      with new have "k \<noteq> ?kx" by force
      with ih True show ?thesis by auto
    next
      case False
      then show ?thesis using ih by (cases "k = ?kx") auto
    qed
  next
    case (Some ex)
    let ?h1 = "merge_into ex x h"
    from Some Cons.prems have run: "dedup_loop es seen ?h1 = (seen', h')"
      by (simp add: Let_def)
    have i1: "\<forall>(k, r) \<in> set seen. k = key_of (?h1 r)" using Cons.prems(2) by simp
    note ih = Cons.IH [OF run i1 Cons.prems(3,4)]
    have keq: "(\<lambda>j. key_of (?h1 j) = k) = (\<lambda>j. key_of (h j) = k)" by (simp add: fun_eq_iff)
    from Some have exin: "(?kx, ex) \<in> set seen" by (rule map_of_SomeD)
    then have kxin: "?kx \<in> fst ` set seen" by force
    from dedup_loop_keys [OF run i1] Cons.prems(4) have kc: "k = key_of (h c)" by auto
    from Cons.prems(2) exin have kex: "?kx = key_of (h ex)" by auto
    from dedup_loop_distinct [OF run Cons.prems(3)] have d': "distinct (map fst seen')" .
    from dedup_loop_seen_mono [OF run] exin have exin': "(?kx, ex) \<in> set seen'" by auto
    show ?thesis
    proof (cases "k = ?kx")
      case True
      with d' exin' Cons.prems(4) have c: "c = ex"
        by (metis eq_key_imp_eq_value)
      have "merge_all ?h1 ex (?h1 ex) (filter (\<lambda>j. key_of (h j) = k) es)
              = merge_all h ex (?h1 ex) (filter (\<lambda>j. key_of (h j) = k) es)"
        by (rule merge_all_cong) (simp add: merge_into_eq)
      moreover have "?h1 ex = merged (h ex) (if x = ex then h ex else h x)"
        by (simp add: merge_into_eq)
      ultimately show ?thesis using ih True kxin c by (simp add: keq)
    next
      case False
      with kc kex have cne: "c \<noteq> ex" by auto
      then have hc: "?h1 c = h c" by (simp add: merge_into_eq)
      have cong: "merge_all ?h1 c (h c) js = merge_all h c (h c) js"
        if "\<forall>j \<in> set js. key_of (h j) = k" for js
      proof (rule merge_all_cong)
        fix j assume "j \<in> set js"
        with that False kex have "j \<noteq> ex" by auto
        then show "?h1 j = h j" by (simp add: merge_into_eq)
      qed
      have "\<forall>j \<in> set (filter (\<lambda>j. key_of (h j) = k) es). key_of (h j) = k" by simp
      moreover have "\<forall>j \<in> set (tl (filter (\<lambda>j. key_of (h j) = k) es)). key_of (h j) = k"
      proof
        fix j assume "j \<in> set (tl (filter (\<lambda>j. key_of (h j) = k) es))"
        then have "j \<in> set (filter (\<lambda>j. key_of (h j) = k) es)"
          by (cases "filter (\<lambda>j. key_of (h j) = k) es") auto
        then show "key_of (h j) = k" by simp
      qed
      ultimately have "merge_all ?h1 c (h c)
             (if k \<in> fst ` set seen then filter (\<lambda>j. key_of (h j) = k) es
              else tl (filter (\<lambda>j. key_of (h j) = k) es))
           = merge_all h c (h c)
             (if k \<in> fst ` set seen then filter (\<lambda>j. key_of (h j) = k) es
              else tl (filter (\<lambda>j. key_of (h j) = k) es))"
        using cong by presburger
      moreover have "filter (\<lambda>j. key_of (h j) = k) (x # es) = filter (\<lambda>j. key_of (h j) = k) es"
        using False by simp
      ultimately show ?thesis using ih unfolding keq hc by simp
    qed
  qed
qed

section \<open>Days and weekdays\<close>

lemma split_on_not_Nil [simp]: "split_on c s \<noteq> []"
  by (induction s) (auto split: list.splits)


lemma split_on_first: "c \<notin> set a \<Longrightarrow> split_on c (a @ c # t) = a # split_on c t"
  by (induction a) auto

lemma split_on_two: "c \<in> set s \<Longrightarrow> \<exists>a b rest. split_on c s = a # b # rest"
proof -
  assume "c \<in> set s"
  then obtain a t where "s = a @ c # t" and "c \<notin> set a"
    by (auto dest: split_list_first)
  then have "split_on c s = a # split_on c t" by (simp add: split_on_first)
  moreover obtain b rest where "split_on c t = b # rest"
    by (cases "split_on c t") simp_all
  ultimately show ?thesis by auto
qed

lemma MS_PER_DAY_pos: "0 < MS_PER_DAY"
  by (simp add: MS_PER_DAY_def)

lemma day_start_eq: "t - t mod MS_PER_DAY = MS_PER_DAY * (t div MS_PER_DAY)"
  by (simp add: minus_mod_eq_mult_div)



lemma div_add_days [simp]: "(t + k * MS_PER_DAY) div MS_PER_DAY = t div MS_PER_DAY + k"
  using MS_PER_DAY_pos by simp

lemma mod_add_days [simp]: "(t + k * MS_PER_DAY) mod MS_PER_DAY = t mod MS_PER_DAY"
  by simp




lemma getDateRange_weekend:
  "getDateRange parseISO now (Some ''weekend'')
     = Inr \<lparr>start = startOfDay (Some (now + daysUntilSaturday (getDay now) * MS_PER_DAY)),
            end' = endOfDay (addDays (Some (now + daysUntilSaturday (getDay now) * MS_PER_DAY)) 1)\<rparr>"
  by (simp add: getDateRange_def truthy_def or_empty_def daysUntilSaturday_def Let_def addDays_def)



lemma getDay_range: "0 \<le> getDay t \<and> getDay t < 7"
  by (simp add: getDay_def)

lemma daysUntilSaturday_range: "1 \<le> daysUntilSaturday w \<and> daysUntilSaturday w \<le> 7"
  unfolding daysUntilSaturday_def Let_def by presburger

lemma daysUntilSaturday_cases:
  "0 \<le> w \<Longrightarrow> w < 7 \<Longrightarrow> daysUntilSaturday w = (if w = 6 then 7 else 6 - w)"
  unfolding daysUntilSaturday_def Let_def by presburger

lemma getDay_day: "getDay (MS_PER_DAY * q) = (q + 4) mod 7"
  using MS_PER_DAY_pos by (simp add: getDay_def)

lemma getDay_day_end: "getDay (MS_PER_DAY * q + (MS_PER_DAY - 1)) = (q + 4) mod 7"
proof -
  have "(MS_PER_DAY * q + (MS_PER_DAY - 1)) div MS_PER_DAY = q"
    using MS_PER_DAY_pos by (simp add: div_pos_pos_trivial)
  then show ?thesis by (simp add: getDay_def)
qed

lemma mod7_shift: "(n + k + 4) mod 7 = ((n + 4) mod 7 + k) mod (7 :: int)"
  by presburger

lemma getDay_add_days: "getDay (t + j * MS_PER_DAY) = (getDay t + j) mod 7"
proof -
  define n where "n = t div MS_PER_DAY"
  have "(n + j + 4) mod 7 = ((n + 4) mod 7 + j) mod 7" by (rule mod7_shift)
  then show ?thesis by (simp add: getDay_def n_def)
qed

lemma saturday_arith:
  fixes w :: int
  assumes "0 \<le> w" "w < 7"
  shows "(w + (if w = 6 then 7 else 6 - w)) mod 7 = 6"
    and "(w + (if w = 6 then 7 else 6 - w) + 1) mod 7 = 0"
    and "1 \<le> j \<Longrightarrow> j < (if w = 6 then 7 else 6 - w) \<Longrightarrow> (w + j) mod 7 \<noteq> 6"
  using assms by presburger+

section \<open>The adapters\<close>

lemma dropWhile_fixed: "xs = [] \<or> \<not> P (hd xs) \<Longrightarrow> dropWhile P xs = xs"
  by (cases xs) auto

lemma trim_idem [simp]: "trim (trim s) = trim s"
proof -
  define t where "t = dropWhile is_space s"
  define u where "u = rev (dropWhile is_space (rev t))"
  have t: "t = [] \<or> \<not> is_space (hd t)"
    unfolding t_def by (metis hd_dropWhile)
  have ru: "rev u = [] \<or> \<not> is_space (hd (rev u))"
    unfolding u_def by (metis hd_dropWhile rev_rev_ident)
  have "t = u @ rev (takeWhile is_space (rev t))"
    unfolding u_def by (metis rev_append rev_rev_ident takeWhile_dropWhile_id)
  then have "u \<noteq> [] \<Longrightarrow> hd u = hd t" by (metis hd_append2)
  moreover have "u \<noteq> [] \<Longrightarrow> t \<noteq> []" unfolding u_def by auto
  ultimately have "u = [] \<or> \<not> is_space (hd u)" using t by auto
  then have "dropWhile is_space u = u" by (rule dropWhile_fixed)
  moreover from ru have "dropWhile is_space (rev u) = rev u" by (rule dropWhile_fixed)
  ultimately have "trim u = u" by (simp add: trim_def)
  then show ?thesis by (simp add: trim_def u_def t_def)
qed

lemma too_short_Some: "\<not> too_short n \<Longrightarrow> \<exists>s. n = Some s \<and> 3 \<le> length s"
  by (cases n) (auto simp: too_short_def truthy_def or_empty_def)

lemma slug_name_trimmed: "slug_name d h = Inr (Some n) \<Longrightarrow> trim n = n"
  by (auto simp: slug_name_def split: if_splits option.splits sum.splits)

lemma giessen_name_kept:
  assumes "giessen_name d el = Inr (Some (a, nm))"
  shows "\<exists>n. nm = Some n \<and> 3 \<le> length n \<and> trim n = n"
proof -
  from assms have l: "link el = Some a"
    by (auto simp: giessen_name_def Let_def split: option.splits sum.splits if_splits)
  from assms l obtain slug where slug: "slug_name d (href a) = Inr slug"
    by (auto simp: giessen_name_def Let_def split: sum.splits)
  from assms l slug have nm: "nm = (if too_short slug
      then Some (trim (strip_mark (strip_author (trim (collapse_ws (link_text a)))))) else slug)"
    and ok: "\<not> too_short nm"
    by (auto simp: giessen_name_def Let_def split: if_splits)
  from ok obtain n where n: "nm = Some n" "3 \<le> length n"
    using too_short_Some by blast
  have "trim n = n"
  proof (cases "too_short slug")
    case True
    with n nm show ?thesis by auto
  next
    case False
    with n nm slug show ?thesis by (auto dest: slug_name_trimmed)
  qed
  with n show ?thesis by blast
qed

lemma giessen_item_cases:
  "giessen_item d g r el =
     (case giessen_name d el of
        Inl err \<Rightarrow> Inl err
      | Inr None \<Rightarrow> Inr None
      | Inr (Some (a, nm)) \<Rightarrow>
          if date_filter_skips g r (fst (extract_dates (trim (collapse_ws (el_text el)))))
               (snd (extract_dates (trim (collapse_ws (el_text el)))))
          then Inr None
          else Inr (Some
            \<lparr>name = or_else (Some (trim (before_date (or_empty nm)))) nm,
             date = fst (extract_dates (trim (collapse_ws (el_text el)))),
             venue = None,
             address = Some (''Gie'' @ [CHR 0xDF] @ ''en''),
             type = Some ''other'',
             url = (if truthy (href a)
                    then (if startsWith (or_empty (href a)) ''http''
                          then href a
                          else Some (BASE @ or_empty (href a)))
                    else None),
             price = None,
             source = ''giessen.de'',
             description = extract_description (trim (collapse_ws (el_text el)))\<rparr>))"
  by (simp add: giessen_item_def Let_def split: sum.splits option.splits prod.splits)

lemma giessen_item_kept:
  assumes "giessen_item d g r el = Inr (Some ev)"
  shows "\<exists>a n dateEnd.
           giessen_name d el = Inr (Some (a, Some n))
           \<and> 3 \<le> length n \<and> trim n = n
           \<and> extract_dates (trim (collapse_ws (el_text el))) = (date ev, dateEnd)
           \<and> \<not> date_filter_skips g r (date ev) dateEnd
           \<and> name ev = or_else (Some (trim (before_date n))) (Some n)
           \<and> type ev = Some ''other''"
proof -
  from assms obtain a nm where c: "giessen_name d el = Inr (Some (a, nm))"
    by (auto simp: giessen_item_cases split: sum.splits option.splits)
  from giessen_name_kept [OF c] obtain n where n: "nm = Some n" "3 \<le> length n" "trim n = n"
    by blast
  obtain date' dateEnd where ed: "extract_dates (trim (collapse_ws (el_text el))) = (date', dateEnd)"
    by (cases "extract_dates (trim (collapse_ws (el_text el)))") auto
  from assms c n ed have "\<not> date_filter_skips g r date' dateEnd \<and> date ev = date'
      \<and> name ev = or_else (Some (trim (before_date n))) (Some n) \<and> type ev = Some ''other''"
    by (auto simp: giessen_item_cases or_empty_def split: if_splits)
  with c n ed show ?thesis by blast
qed

lemma giessen_item_name:
  assumes "giessen_item d g r el = Inr (Some ev)"
  shows "\<exists>n. name ev = Some n \<and> trim n \<noteq> []"
proof -
  from giessen_item_kept [OF assms] obtain n where n: "3 \<le> length n" "trim n = n"
    and nm: "name ev = or_else (Some (trim (before_date n))) (Some n)" by blast
  show ?thesis
  proof (cases "trim (before_date n) = []")
    case True
    with nm n show ?thesis by (auto simp: or_else_def truthy_def)
  next
    case False
    with nm show ?thesis by (auto simp: or_else_def truthy_def)
  qed
qed

lemma giessen_each_member:
  "giessen_each f els = Inr evs \<Longrightarrow> ev \<in> set evs \<Longrightarrow> \<exists>el \<in> set els. f el = Inr (Some ev)"
proof (induction els arbitrary: evs)
  case Nil
  then show ?case by simp
next
  case (Cons el els)
  then show ?case
    by (auto split: sum.splits option.splits)
qed

lemma fetchGiessenDe_member:
  assumes "ev \<in> set (events (fetchGiessenDe d g r resp))"
  shows "\<exists>els el. resp = Data els \<and> el \<in> set els \<and> giessen_item d g r el = Inr (Some ev)"
proof (cases resp)
  case Failed
  with assms show ?thesis by (simp add: fetchGiessenDe_def)
next
  case (Data els)
  with assms obtain evs where "giessen_each (giessen_item d g r) els = Inr evs" "ev \<in> set evs"
    by (auto simp: fetchGiessenDe_def split: sum.splits)
  from giessen_each_member [OF this] Data show ?thesis by blast
qed

lemma element_name:
  "frame_element el = Some e \<or> main_element el = Some e \<Longrightarrow>
   \<exists>n. raw_name e = Some n \<and> trim n \<noteq> []"
proof -
  assume a: "frame_element el = Some e \<or> main_element el = Some e"
  then have ns: "\<not> too_short (map_option trim (heading el))"
    and nm: "raw_name e = map_option trim (heading el)"
    by (auto simp: frame_element_def main_element_def Let_def split: if_splits)
  from too_short_Some [OF ns] obtain s where "map_option trim (heading el) = Some s" "3 \<le> length s"
    by blast
  moreover then have "trim s = s" by auto
  ultimately show ?thesis using nm by auto
qed

lemma map_events_names:
  "map_events tm_event items = Inr evs \<Longrightarrow> map name evs = map tm_name items"
proof (induction items arbitrary: evs)
  case Nil
  then show ?case by simp
next
  case (Cons i items)
  then show ?case
    by (auto simp: tm_event_def split: sum.splits option.splits list.splits)
qed

lemma map_events_total:
  "\<forall>i \<in> set items. priceRanges i \<noteq> Some [] \<Longrightarrow> \<exists>evs. map_events tm_event items = Inr evs"
proof (induction items)
  case Nil
  then show ?case by simp
next
  case (Cons i items)
  then obtain evs where "map_events tm_event items = Inr evs" by auto
  moreover from Cons.prems have "\<exists>ev. tm_event i = Inr ev"
    by (auto simp: tm_event_def split: option.splits list.splits)
  ultimately show ?case by auto
qed

lemma set_map_filter: "set (List.map_filter f xs) = {y. \<exists>x \<in> set xs. f x = Some y}"
  by (induction xs) (auto simp: map_filter_simps split: option.splits)

lemma fetchDeskline_names:
  assumes "\<forall>f \<in> set (frames p). concat (map (script_events deskline_ld) (ld_scripts f)) = []"
    and "ev \<in> set (events (fetchDeskline cityKey (Data p)))"
  shows "\<exists>n. name ev = Some n \<and> trim n \<noteq> []"
proof -
  from assms(2) obtain c where c: "CITIES cityKey = Some c"
    by (auto simp: fetchDeskline_def split: option.splits if_splits)
  define ff where "ff = concat (map frame_events
                                (filter (\<lambda>f. contains (frame_url f) ''deskline'') (frames p)))"
  define raw where "raw = (if ff = [] then List.map_filter main_element (main_items p) else ff)"
  have "events (fetchDeskline cityKey (Data p)) = map (normalize_event c) raw"
    by (auto simp: fetchDeskline_def c Let_def raw_def ff_def)
  with assms(2) obtain e where e: "e \<in> set raw" "ev = normalize_event c e"
    by auto
  have "\<exists>el. frame_element el = Some e \<or> main_element el = Some e"
  proof (cases "ff = []")
    case True
    with e(1) have "e \<in> set (List.map_filter main_element (main_items p))"
      by (simp add: raw_def)
    then show ?thesis by (auto simp: set_map_filter)
  next
    case False
    with e(1) have "e \<in> set ff" by (simp add: raw_def)
    then obtain f where "f \<in> set (frames p)" "e \<in> set (frame_events f)"
      unfolding ff_def by auto
    with assms(1) show ?thesis
      by (auto simp: frame_events_def set_map_filter)
  qed
  then obtain n where "raw_name e = Some n" "trim n \<noteq> []"
    using element_name by blast
  with e(2) show ?thesis by (simp add: normalize_event_def)
qed

lemma date_filter_skips_iff:
  "date_filter_skips g r date' dateEnd \<longleftrightarrow>
     truthy date' \<and> (js_less (effective_end g date' dateEnd) (start r)
                      \<or> js_less (end' r) (g (or_empty date')))"
  by (simp add: date_filter_skips_def effective_end_def Let_def)

lemma giessen_item_range:
  assumes "extract_dates (trim (collapse_ws (el_text el))) = (date', dateEnd)"
    and "date_filter_skips g r date' dateEnd = date_filter_skips g r' date' dateEnd"
  shows "giessen_item d g r el = giessen_item d g r' el"
  using assms by (simp add: giessen_item_cases split: sum.splits option.splits prod.splits)








section \<open>What a merge keeps\<close>

text \<open>
  Claim C1, as the code has it.  Let \<open>e\<close> be any event of the input, \<open>c\<close> the first event
  of the input with the identity key of \<open>e\<close>, and \<open>dups\<close> the later events of the input with
  that key, in their order; \<open>e\<close> is \<open>c\<close> or one of \<open>dups\<close>.  The output holds \<open>c\<close>.  After
  \<open>dedup\<close>, \<open>c\<close> has its own name, date, address, type, url and description.  Its price is
  its own when that is not empty, otherwise the first price of \<open>dups\<close> that is not empty (and
  its own when there is none); the same holds for its venue.  Its source is its own source
  followed, for each event of \<open>dups\<close> in order, by a comma, a space and the source of that
  event.  So a price or venue that \<open>c\<close> had is kept as it was, a non-empty price or venue of
  \<open>e\<close> leaves \<open>c\<close> with a non-empty one, and nothing else of \<open>e\<close> reaches \<open>c\<close>.
\<close>

theorem dedup_merge_keeps:
  assumes "dedup getTime h input = (out, h')" and "e \<in> set input"
  defines "c \<equiv> canonical h input e"
  defines "dups \<equiv> later_duplicates h input e"
  shows "c \<in> set out \<and> c \<in> set (first_occurrences (key_of \<circ> h) input)
         \<and> key_of (h c) = key_of (h e) \<and> e \<in> set (c # dups)
         \<and> c # dups = filter (\<lambda>j. key_of (h j) = key_of (h e)) input
         \<and> same_fixed (h c) (h' c)
         \<and> price (h' c) = first_truthy (price (h c)) (map (price \<circ> h) dups)
         \<and> venue (h' c) = first_truthy (venue (h c)) (map (venue \<circ> h) dups)
         \<and> source (h' c) = appended h c (source (h c)) dups
         \<and> (c \<notin> set dups \<longrightarrow>
              source (h' c) = source (h c) @ concat (map (\<lambda>j. '', '' @ source (h j)) dups))
         \<and> (truthy (price (h c)) \<longrightarrow> price (h' c) = price (h c))
         \<and> (truthy (venue (h c)) \<longrightarrow> venue (h' c) = venue (h c))
         \<and> (truthy (price (h e)) \<longrightarrow> truthy (price (h' c)))
         \<and> (truthy (venue (h e)) \<longrightarrow> truthy (venue (h' c)))"
proof -
  let ?l = "filter (\<lambda>j. key_of (h j) = key_of (h e)) input"
  obtain seen where run: "dedup_loop input [] h = (seen, h')"
    and out: "out = array_sort (compare_dates getTime h') (map snd seen)"
    using assms(1) by (auto simp: dedup_def split: prod.splits)
  from dedup_loop_canonical [OF run assms(2)] obtain c' where c': "(key_of (h e), c') \<in> set seen"
    by blast
  from dedup_loop_keys [OF run] c' have key: "key_of (h c') = key_of (h e)" by auto
  from c' have "c' \<in> set (map snd seen)" by force
  then have firsts: "c' \<in> set (first_occurrences (key_of \<circ> h) input)" and cout: "c' \<in> set out"
    using dedup_loop_first_occurrences [OF run] by (simp_all add: out)
  from hd_filter_first_occurrences [OF firsts] key have "c = c'"
    by (simp add: c_def canonical_def)
  from assms(2) have ne: "?l \<noteq> []" by (auto simp: filter_empty_conv)
  then have l: "c # dups = ?l" by (simp add: c_def dups_def canonical_def later_duplicates_def)
  from assms(2) have el: "e \<in> set (c # dups)" unfolding l by simp
  from dedup_loop_merge_all [OF run _ _ c'] have eq: "h' c = merge_all h c (h c) dups"
    by (simp add: \<open>c = c'\<close> dups_def later_duplicates_def)
  have p: "price (h' c) = first_truthy (price (h c)) (map (price \<circ> h) dups)"
    unfolding eq by (rule merge_all_price) simp
  have v: "venue (h' c) = first_truthy (venue (h c)) (map (venue \<circ> h) dups)"
    unfolding eq by (rule merge_all_venue) simp
  have s: "source (h' c) = appended h c (source (h c)) dups"
    unfolding eq by (rule merge_all_source)
  have f: "same_fixed (h c) (h' c)" unfolding eq by (rule merge_all_fixed)
  from el have "price (h e) \<in> set (price (h c) # map (price \<circ> h) dups)"
    and "venue (h e) \<in> set (venue (h c) # map (venue \<circ> h) dups)" by auto
  then have fill: "truthy (price (h e)) \<longrightarrow> truthy (price (h' c))"
    "truthy (venue (h e)) \<longrightarrow> truthy (venue (h' c))"
    unfolding p v by (blast intro: first_truthy_fills)+
  from cout firsts key l el f p v s fill show ?thesis
    unfolding \<open>c = c'\<close> [symmetric]
    by (simp add: first_truthy_keeps appended_plain)
qed

theorem dedup_merge_keeps_witness:
  "canonical hc [0, 1, 2] 2 = 0 \<and> later_duplicates hc [0, 1, 2] 2 = [1, 2]
   \<and> fst (dedup local_date_time hc [0, 1, 2]) = [0]
   \<and> price (snd (dedup local_date_time hc [0, 1, 2]) 0) = Some ''10''
   \<and> venue (snd (dedup local_date_time hc [0, 1, 2]) 0) = Some ''Halle''
   \<and> source (snd (dedup local_date_time hc [0, 1, 2]) 0) = ''a, b, c''
   \<and> same_fixed (hc 0) (snd (dedup local_date_time hc [0, 1, 2]) 0)
   \<and> price (snd (dedup local_date_time hc [1, 2]) 1) = Some ''10''
   \<and> source (snd (dedup local_date_time hc [1, 0, 1]) 1) = ''b, a, b, a''"
proof -
  have c: "canonical hc [0, 1, 2] 2 = 0" "later_duplicates hc [0, 1, 2] 2 = [1, 2]"
    "canonical hc [1, 2] 2 = 1" "later_duplicates hc [1, 2] 2 = [2]"
    "canonical hc [1, 0, 1] 0 = 1" "later_duplicates hc [1, 0, 1] 0 = [0, 1]"
    by code_simp+
  have v: "first_truthy (price (hc 0)) (map (price \<circ> hc) [1, 2]) = Some ''10''"
    "first_truthy (venue (hc 0)) (map (venue \<circ> hc) [1, 2]) = Some ''Halle''"
    "appended hc 0 (source (hc 0)) [1, 2] = ''a, b, c''"
    "truthy (price (hc 1))" "price (hc 1) = Some ''10''"
    "appended hc 1 (source (hc 1)) [0, 1] = ''b, a, b, a''"
    by code_simp+
  have o: "fst (dedup local_date_time hc [0, 1, 2]) = [0]" by code_simp
  have d: "dedup local_date_time hc xs = (fst (dedup local_date_time hc xs), snd (dedup local_date_time hc xs))"
    for xs by simp
  have m: "2 \<in> set [0, 1, 2 :: nat]" "2 \<in> set [1, 2 :: nat]" "0 \<in> set [1, 0, 1 :: nat]" by simp_all
  note t1 = dedup_merge_keeps [OF d m(1), unfolded c]
  note t2 = dedup_merge_keeps [OF d m(2), unfolded c]
  note t3 = dedup_merge_keeps [OF d m(3), unfolded c]
  from t1 have "price (snd (dedup local_date_time hc [0, 1, 2]) 0)
                  = first_truthy (price (hc 0)) (map (price \<circ> hc) [1, 2])"
    by (elim conjE)
  moreover from t1 have "venue (snd (dedup local_date_time hc [0, 1, 2]) 0)
                  = first_truthy (venue (hc 0)) (map (venue \<circ> hc) [1, 2])"
    by (elim conjE)
  moreover from t1
  have "source (snd (dedup local_date_time hc [0, 1, 2]) 0) = appended hc 0 (source (hc 0)) [1, 2]"
    by (elim conjE)
  moreover from t1 have f: "same_fixed (hc 0) (snd (dedup local_date_time hc [0, 1, 2]) 0)"
    by (elim conjE)
  ultimately
  have "price (snd (dedup local_date_time hc [0, 1, 2]) 0) = Some ''10''
   \<and> venue (snd (dedup local_date_time hc [0, 1, 2]) 0) = Some ''Halle''
   \<and> source (snd (dedup local_date_time hc [0, 1, 2]) 0) = ''a, b, c''"
    by (simp only: v)
  moreover from t2 have "truthy (price (hc 1)) \<longrightarrow> price (snd (dedup local_date_time hc [1, 2]) 1) = price (hc 1)"
    by (elim conjE)
  with v have "price (snd (dedup local_date_time hc [1, 2]) 1) = Some ''10''" by simp
  moreover from t3 have "source (snd (dedup local_date_time hc [1, 0, 1]) 1)
      = appended hc 1 (source (hc 1)) [0, 1]"
    by (elim conjE)
  then have "source (snd (dedup local_date_time hc [1, 0, 1]) 1) = ''b, a, b, a''"
    by (simp only: v)
  ultimately show ?thesis using c o f by blast
qed

text \<open>
  The claim as the specification words it (no field that is non-null on either input is
  null on the merged record) fails: the second record of the example has a url, the first
  has none, they share their key, and the single merged record has no url.
\<close>

theorem dedup_merge_loses_url:
  "key_of (ha 0) = key_of (ha 1) \<and> url (ha 1) = Some ''http://b''
     \<and> fst (dedup local_date_time ha [0, 1]) = [0]
     \<and> url (snd (dedup local_date_time ha [0, 1]) 0) = None"
  by code_simp

section \<open>What dedup writes to\<close>

text \<open>
  Claim C2, as the code has it.  The array \<open>dedup\<close> returns holds references of the input
  (it makes no new record).  No record changes its name, date, address, type, url or
  description.  A record that differs after \<open>dedup\<close> is one of the returned records, and
  when no two input events share an identity key the store is left as it was.
\<close>

theorem dedup_frame:
  assumes "dedup getTime h input = (out, h')"
  shows "set out \<subseteq> set input
           \<and> (\<forall>r. same_fixed (h r) (h' r))
           \<and> (\<forall>r. h' r \<noteq> h r \<longrightarrow> r \<in> set out)
           \<and> (distinct (map (key_of \<circ> h) input) \<longrightarrow> h' = h)"
proof -
  obtain seen where run: "dedup_loop input [] h = (seen, h')"
    and out: "out = array_sort (compare_dates getTime h') (map snd seen)"
    using assms(1) by (auto simp: dedup_def split: prod.splits)
  from dedup_loop_values [OF run] have "set out \<subseteq> set input" by (simp add: out)
  moreover from dedup_loop_grows [OF run] have "\<forall>r. same_fixed (h r) (h' r)"
    by (simp add: grows_def)
  moreover from dedup_loop_changed [OF run] have "\<forall>r. h' r \<noteq> h r \<longrightarrow> r \<in> set out"
    by (simp add: out)
  moreover have "distinct (map (key_of \<circ> h) input) \<longrightarrow> h' = h"
  proof
    assume "distinct (map (key_of \<circ> h) input)"
    then have "dedup_loop input [] h = ([] @ map (\<lambda>e. (key_of (h e), e)) input, h)"
      by (intro dedup_loop_unique) simp_all
    with run show "h' = h" by simp
  qed
  ultimately show ?thesis by blast
qed

theorem dedup_frame_witness:
  "set (fst (dedup local_date_time ha [0, 1])) \<subseteq> {0, 1}
     \<and> same_fixed (ha 0) (snd (dedup local_date_time ha [0, 1]) 0)
     \<and> snd (dedup local_date_time ha [0, 1]) 1 = ha 1
     \<and> snd (dedup local_date_time ha [1]) = ha"
proof -
  have d: "distinct (map (key_of \<circ> ha) [1])" by simp
  have n: "1 \<notin> set (fst (dedup local_date_time ha [0, 1]))" by code_simp
  have "dedup local_date_time ha [0, 1] =
          (fst (dedup local_date_time ha [0, 1]), snd (dedup local_date_time ha [0, 1]))"
    by simp
  from dedup_frame [OF this] n
  have "set (fst (dedup local_date_time ha [0, 1])) \<subseteq> {0, 1}
     \<and> same_fixed (ha 0) (snd (dedup local_date_time ha [0, 1]) 0)
     \<and> snd (dedup local_date_time ha [0, 1]) 1 = ha 1" by auto
  moreover have "dedup local_date_time ha [1] =
          (fst (dedup local_date_time ha [1]), snd (dedup local_date_time ha [1]))"
    by simp
  from dedup_frame [OF this] d have "snd (dedup local_date_time ha [1]) = ha" by blast
  ultimately show ?thesis by blast
qed

text \<open>
  The claim as the specification words it (no input record is changed) fails: the first
  record of the example has no price and no venue and the source \<open>a\<close>; after \<open>dedup\<close>
  that same record, which is the one returned, has the price and the venue of the second
  record and the source \<open>a, b\<close>.
\<close>

theorem dedup_mutates_input:
  "price (ha 0) = None \<and> venue (ha 0) = None \<and> source (ha 0) = ''a''
     \<and> fst (dedup local_date_time ha [0, 1]) = [0]
     \<and> price (snd (dedup local_date_time ha [0, 1]) 0) = Some ''10''
     \<and> venue (snd (dedup local_date_time ha [0, 1]) 0) = Some ''Halle''
     \<and> source (snd (dedup local_date_time ha [0, 1]) 0) = ''a, b''"
  by code_simp

section \<open>Malformed date expressions\<close>

text \<open>
  Claim C3, as the code has it.  The resolver never fails: for every expression it returns
  a range.  For a string without a colon that is neither \<open>today\<close> nor \<open>weekend\<close> and that
  \<open>parseISO\<close> rejects, both bounds of the range are invalid dates.  For a string with a
  colon the bounds come from the first two pieces: a piece that \<open>parseISO\<close> rejects gives
  an invalid bound, and further pieces are ignored.
\<close>

theorem getDateRange_never_fails:
  "(\<exists>r. getDateRange parseISO now dateStr = Inr r)
   \<and> (s \<noteq> [] \<and> CHR '':'' \<notin> set s \<and> s \<noteq> ''today'' \<and> s \<noteq> ''weekend'' \<and> parseISO s = None
        \<longrightarrow> getDateRange parseISO now (Some s) = Inr \<lparr>start = None, end' = None\<rparr>)
   \<and> (CHR '':'' \<in> set s
        \<longrightarrow> (\<exists>a b rest. split_on CHR '':'' s = a # b # rest
              \<and> getDateRange parseISO now (Some s)
                  = Inr \<lparr>start = startOfDay (parseISO a), end' = endOfDay (parseISO b)\<rparr>))"
proof (intro conjI impI)
  show "\<exists>r. getDateRange parseISO now dateStr = Inr r"
    by (auto simp: getDateRange_def Let_def split: list.splits)
next
  assume "s \<noteq> [] \<and> CHR '':'' \<notin> set s \<and> s \<noteq> ''today'' \<and> s \<noteq> ''weekend'' \<and> parseISO s = None"
  then show "getDateRange parseISO now (Some s) = Inr \<lparr>start = None, end' = None\<rparr>"
    by (simp add: getDateRange_def truthy_def or_empty_def startOfDay_def endOfDay_def)
next
  assume c: "CHR '':'' \<in> set s"
  from split_on_two [OF this] obtain a b rest where sp: "split_on CHR '':'' s = a # b # rest"
    by blast
  from c have "s \<noteq> []" by auto
  with c sp have "getDateRange parseISO now (Some s)
                  = Inr \<lparr>start = startOfDay (parseISO a), end' = endOfDay (parseISO b)\<rparr>"
    by (simp add: getDateRange_def truthy_def or_empty_def)
  with sp show "\<exists>a b rest. split_on CHR '':'' s = a # b # rest
              \<and> getDateRange parseISO now (Some s)
                  = Inr \<lparr>start = startOfDay (parseISO a), end' = endOfDay (parseISO b)\<rparr>"
    by blast
qed

theorem getDateRange_never_fails_witness:
  "getDateRange parseISO_calendar 0 (Some ''2026-02-10:next:week'')
     = Inr \<lparr>start = Some 1770681600000, end' = None\<rparr>
   \<and> getDateRange parseISO_calendar 0 (Some ''next week'') = Inr \<lparr>start = None, end' = None\<rparr>"
proof -
  have a: "''next week'' \<noteq> [] \<and> CHR '':'' \<notin> set ''next week'' \<and> ''next week'' \<noteq> ''today''
      \<and> ''next week'' \<noteq> ''weekend'' \<and> parseISO_calendar ''next week'' = None"
    by code_simp
  have b: "CHR '':'' \<in> set ''2026-02-10:next:week''" by simp
  have c: "split_on CHR '':'' ''2026-02-10:next:week'' = [''2026-02-10'', ''next'', ''week'']"
    by code_simp
  have d: "startOfDay (parseISO_calendar ''2026-02-10'') = Some 1770681600000"
    "endOfDay (parseISO_calendar ''next'') = None" by code_simp+
  from getDateRange_never_fails [of parseISO_calendar 0 None "''next week''"] a
  have "getDateRange parseISO_calendar 0 (Some ''next week'') = Inr \<lparr>start = None, end' = None\<rparr>"
    by blast
  moreover from getDateRange_never_fails [of parseISO_calendar 0 None "''2026-02-10:next:week''"] b
  have "getDateRange parseISO_calendar 0 (Some ''2026-02-10:next:week'')
     = Inr \<lparr>start = Some 1770681600000, end' = None\<rparr>"
    unfolding c using d by auto
  ultimately show ?thesis by blast
qed

text \<open>
  The claim as the specification words it (a malformed expression makes the resolver fail
  with an error instead of returning a range) fails: \<open>next week\<close> is returned as a range
  of two invalid dates.
\<close>

theorem getDateRange_returns_invalid_range:
  "getDateRange parseISO_calendar 0 (Some ''next week'') = Inr \<lparr>start = None, end' = None\<rparr>"
  by code_simp

section \<open>Order of the bounds of a range\<close>




section \<open>Idempotence of dedup\<close>



section \<open>Order of the output of dedup\<close>

text \<open>
  Claim C6, as the code has it.  When every non-empty date string of the input is a valid
  date for \<open>getTime\<close>, the output is in ascending order of start time with the events
  without a date after all dated ones, and for every sort key the output events with that
  key (also the undated ones) are in the order in which they first occur in the input.
  The sort keys are those of the input records: \<open>dedup\<close> does not change a date.
\<close>

theorem dedup_sorted_stable:
  assumes "dedup getTime h input = (out, h')"
    and "\<forall>e \<in> set input. date_num getTime (h e) \<noteq> NaN"
  shows "sorted_wrt (\<lambda>a b. in_order (date_num getTime (h' a)) (date_num getTime (h' b))) out
         \<and> (\<forall>v. filter (\<lambda>r. date_num getTime (h' r) = v) out
                 = filter (\<lambda>r. date_num getTime (h' r) = v)
                     (first_occurrences (key_of \<circ> h) input))
         \<and> (\<forall>r. date_num getTime (h' r) = date_num getTime (h r))"
proof -
  let ?k = "\<lambda>r. date_num getTime (h' r)"
  let ?c = "compare_dates getTime h'"
  obtain seen where run: "dedup_loop input [] h = (seen, h')"
    and out: "out = array_sort ?c (map snd seen)"
    using assms(1) by (auto simp: dedup_def split: prod.splits)
  have c: "?c = (\<lambda>a b. js_minus (?k a) (?k b))"
    by (simp add: fun_eq_iff compare_dates_def)
  have same: "?k r = date_num getTime (h r)" for r
    using dedup_loop_grows [OF run, of r] by (rule date_num_grows)
  have firsts: "map snd seen = first_occurrences (key_of \<circ> h) input"
    using dedup_loop_first_occurrences [OF run] by simp
  from dedup_loop_values [OF run] have "set (map snd seen) \<subseteq> set input" by simp
  with assms(2) have "\<forall>x \<in> set (map snd seen). ?k x \<noteq> NaN \<and> ?k x \<noteq> NInf"
    by (auto simp: same)
  then have "sorted_wrt (\<lambda>a b. in_order (?k a) (?k b)) out"
    unfolding out c by (rule sorted_array_sort)
  moreover have "filter (\<lambda>r. ?k r = v) out
                 = filter (\<lambda>r. ?k r = v) (first_occurrences (key_of \<circ> h) input)" for v
    unfolding out c firsts [symmetric]
    by (rule filter_array_sort) (use negative_irrefl in auto)
  ultimately show ?thesis using same by blast
qed

theorem dedup_sorted_stable_witness:
  "date_num local_date_time (hb 0) = Fin 1780682400000
   \<and> date_num local_date_time (hb 2) = Fin 1780509600000
   \<and> date_num local_date_time (hb 3) = PInf \<and> date_num local_date_time (hb 4) = PInf
   \<and> fst (dedup local_date_time hb [4, 0, 3, 2, 0, 4]) = [2, 0, 4, 3]
   \<and> first_occurrences (key_of \<circ> hb) [4, 0, 3, 2, 0, 4] = [4, 0, 3, 2]
   \<and> sorted_wrt (\<lambda>a b. in_order (date_num local_date_time (hb a)) (date_num local_date_time (hb b)))
       (fst (dedup local_date_time hb [4, 0, 3, 2, 0, 4]))"
proof -
  have k: "date_num local_date_time (hb 0) = Fin 1780682400000"
    "date_num local_date_time (hb 2) = Fin 1780509600000"
    "date_num local_date_time (hb 3) = PInf" "date_num local_date_time (hb 4) = PInf"
    by code_simp+
  then have v: "\<forall>e \<in> set [4, 0, 3, 2, 0, 4]. date_num local_date_time (hb e) \<noteq> NaN"
    by simp
  have o: "fst (dedup local_date_time hb [4, 0, 3, 2, 0, 4]) = [2, 0, 4, 3]"
    by code_simp
  have f: "first_occurrences (key_of \<circ> hb) [4, 0, 3, 2, 0, 4] = [4, 0, 3, 2]"
    by code_simp
  have "dedup local_date_time hb [4, 0, 3, 2, 0, 4]
          = (fst (dedup local_date_time hb [4, 0, 3, 2, 0, 4]),
             snd (dedup local_date_time hb [4, 0, 3, 2, 0, 4]))"
    by simp
  from dedup_sorted_stable [OF this v]
  have s: "sorted_wrt (\<lambda>a b. in_order
               (date_num local_date_time (snd (dedup local_date_time hb [4, 0, 3, 2, 0, 4]) a))
               (date_num local_date_time (snd (dedup local_date_time hb [4, 0, 3, 2, 0, 4]) b)))
             (fst (dedup local_date_time hb [4, 0, 3, 2, 0, 4]))"
    and e: "\<And>r. date_num local_date_time (snd (dedup local_date_time hb [4, 0, 3, 2, 0, 4]) r)
               = date_num local_date_time (hb r)"
    by blast+
  from s have "sorted_wrt (\<lambda>a b. in_order (date_num local_date_time (hb a))
                                       (date_num local_date_time (hb b)))
                 (fst (dedup local_date_time hb [4, 0, 3, 2, 0, 4]))"
    unfolding e .
  with k o f show ?thesis by blast
qed

text \<open>
  The claim as the specification words it (for every input) fails when a date string is
  not a date: the comparator returns \<open>NaN\<close> for every pair with that event, which the
  sort takes for a tie, so no two neighbours of the example are out of order; the three
  events stay as they are, and the event of 5 June precedes the event of 3 June in the
  output.
\<close>

theorem dedup_unsorted_with_invalid_date:
  "compare_dates local_date_time hb 0 1 = NaN \<and> compare_dates local_date_time hb 1 0 = NaN
   \<and> compare_dates local_date_time hb 1 2 = NaN \<and> compare_dates local_date_time hb 2 1 = NaN
   \<and> fst (dedup local_date_time hb [0, 1, 2]) = [0, 1, 2]
   \<and> date_num local_date_time (snd (dedup local_date_time hb [0, 1, 2]) 0) = Fin 1780682400000
   \<and> date_num local_date_time (snd (dedup local_date_time hb [0, 1, 2]) 1) = NaN
   \<and> date_num local_date_time (snd (dedup local_date_time hb [0, 1, 2]) 2) = Fin 1780509600000
   \<and> \<not> in_order (Fin 1780682400000) (Fin 1780509600000)"
  by code_simp

section \<open>The weekend\<close>

text \<open>
  Claim C7.  With \<open>d = ((6 - weekday(now) + 7) mod 7) or 7\<close>, the expression \<open>weekend\<close>
  resolves to the range that starts at the start of the day \<open>d\<close> days after today and ends
  with the last millisecond of the day after.  \<open>d\<close> is between 1 and 7, the start is the
  beginning of a Saturday, the end lies on a Sunday, none of the days strictly between
  today and the start is a Saturday, and on a Saturday \<open>d\<close> is 7: the range starts seven
  days after the start of today.
\<close>

theorem getDateRange_weekend_is_next_saturday:
  fixes now :: int
  defines "d \<equiv> daysUntilSaturday (getDay now)"
  defines "sat \<equiv> now - now mod MS_PER_DAY + d * MS_PER_DAY"
  shows "getDateRange parseISO now (Some ''weekend'')
           = Inr \<lparr>start = Some sat, end' = Some (sat + 2 * MS_PER_DAY - 1)\<rparr>
         \<and> 1 \<le> d \<and> d \<le> 7
         \<and> sat mod MS_PER_DAY = 0 \<and> getDay sat = 6
         \<and> getDay (sat + 2 * MS_PER_DAY - 1) = 0
         \<and> (\<forall>j. 1 \<le> j \<and> j < d \<longrightarrow> getDay (now + j * MS_PER_DAY) \<noteq> 6)
         \<and> (getDay now = 6 \<longrightarrow> d = 7 \<and> sat = now - now mod MS_PER_DAY + 7 * MS_PER_DAY)"
proof -
  let ?n = "now div MS_PER_DAY"
  let ?w = "getDay now"
  have w: "0 \<le> ?w" "?w < 7" using getDay_range [of now] by simp_all
  have d: "d = (if ?w = 6 then 7 else 6 - ?w)"
    unfolding d_def using w by (rule daysUntilSaturday_cases)
  have sat: "sat = MS_PER_DAY * (?n + d)"
    by (simp add: sat_def day_start_eq algebra_simps)
  have wn: "?w = (?n + 4) mod 7" by (simp add: getDay_def)
  have "getDateRange parseISO now (Some ''weekend'')
           = Inr \<lparr>start = Some sat, end' = Some (sat + 2 * MS_PER_DAY - 1)\<rparr>"
    by (simp add: getDateRange_weekend startOfDay_def endOfDay_def addDays_def sat_def d_def
        algebra_simps)
  moreover have "1 \<le> d \<and> d \<le> 7"
    unfolding d_def by (rule daysUntilSaturday_range)
  moreover have "sat mod MS_PER_DAY = 0" by (simp add: sat)
  moreover have "getDay sat = 6"
  proof -
    have "(?n + d + 4) mod 7 = ((?n + 4) mod 7 + d) mod 7"
      by (rule mod7_shift)
    then have "getDay sat = (?w + d) mod 7"
      unfolding sat getDay_day wn .
    then show ?thesis using saturday_arith(1) [OF w] by (simp add: d)
  qed
  moreover have "getDay (sat + 2 * MS_PER_DAY - 1) = 0"
  proof -
    have "sat + 2 * MS_PER_DAY - 1 = MS_PER_DAY * (?n + d + 1) + (MS_PER_DAY - 1)"
      by (simp add: sat algebra_simps)
    moreover have "(?n + d + 1 + 4) mod 7 = ((?n + 4) mod 7 + d + 1) mod 7"
      using mod7_shift [of ?n "d + 1"] by (simp add: add.assoc)
    ultimately have "getDay (sat + 2 * MS_PER_DAY - 1) = (?w + d + 1) mod 7"
      unfolding wn by (simp only: getDay_day_end)
    then show ?thesis using saturday_arith(2) [OF w] by (simp add: d)
  qed
  moreover have "\<forall>j. 1 \<le> j \<and> j < d \<longrightarrow> getDay (now + j * MS_PER_DAY) \<noteq> 6"
    using saturday_arith(3) [OF w] by (simp add: getDay_add_days d)
  moreover have "getDay now = 6 \<longrightarrow> d = 7 \<and> sat = now - now mod MS_PER_DAY + 7 * MS_PER_DAY"
    by (simp add: d sat_def)
  ultimately show ?thesis by blast
qed

theorem getDateRange_weekend_is_next_saturday_witness:
  "getDay 172800005 = 6
   \<and> getDateRange parseISO_calendar 172800005 (Some ''weekend'')
       = Inr \<lparr>start = Some 777600000, end' = Some 950399999\<rparr>
   \<and> getDay 777600000 = 6 \<and> getDay 950399999 = 0
   \<and> getDay (172800005 + 3 * MS_PER_DAY) \<noteq> 6"
proof -
  have a: "getDay 172800005 = 6" by code_simp
  have b: "(172800005 :: int) - 172800005 mod MS_PER_DAY + 7 * MS_PER_DAY = 777600000"
    "(777600000 :: int) + 2 * MS_PER_DAY - 1 = 950399999"
    by (simp_all add: MS_PER_DAY_def)
  have d: "daysUntilSaturday (getDay 172800005) = 7" by code_simp
  note inst = getDateRange_weekend_is_next_saturday [of parseISO_calendar 172800005]
  from inst a b
  have "getDateRange parseISO_calendar 172800005 (Some ''weekend'')
       = Inr \<lparr>start = Some 777600000, end' = Some 950399999\<rparr>" by simp
  moreover from inst b have "getDay 777600000 = 6 \<and> getDay 950399999 = 0"
    by (simp add: d)
  moreover from inst
  have "\<forall>j. 1 \<le> j \<and> j < daysUntilSaturday (getDay 172800005)
            \<longrightarrow> getDay (172800005 + j * MS_PER_DAY) \<noteq> 6" by blast
  then have "1 \<le> (3 :: int) \<and> (3 :: int) < 7 \<longrightarrow> getDay (172800005 + 3 * MS_PER_DAY) \<noteq> 6"
    unfolding d by (rule spec)
  then have "getDay (172800005 + 3 * MS_PER_DAY) \<noteq> 6" by simp
  ultimately show ?thesis using a by blast
qed

section \<open>Names of the events an adapter returns\<close>

text \<open>
  Claim C8, as the code has it.  Every event the municipal listing adapter returns has a
  name that is not empty after trimming.  The same holds for the rendered page adapter
  when no JSON-LD script of a frame yields an event (its events then come from the two DOM
  loops, which skip an element without a name of three characters).  The structured API
  adapter copies the name of every item as it is.
\<close>

theorem adapter_names:
  "(\<forall>ev \<in> set (events (fetchGiessenDe decodeURIComponent getTime dateRange resp)).
       \<exists>n. name ev = Some n \<and> trim n \<noteq> [])
   \<and> ((\<forall>f \<in> set (frames p). concat (map (script_events deskline_ld) (ld_scripts f)) = [])
        \<longrightarrow> (\<forall>ev \<in> set (events (fetchDeskline cityKey (Data p))).
               \<exists>n. name ev = Some n \<and> trim n \<noteq> []))
   \<and> (truthy apiKey \<and> (\<forall>i \<in> set items. priceRanges i \<noteq> Some [])
        \<longrightarrow> map name (events (fetchTicketmaster apiKey (Data (Some items)))) = map tm_name items)"
proof (intro conjI impI ballI)
  fix ev assume "ev \<in> set (events (fetchGiessenDe decodeURIComponent getTime dateRange resp))"
  from fetchGiessenDe_member [OF this] show "\<exists>n. name ev = Some n \<and> trim n \<noteq> []"
    using giessen_item_name by blast
next
  fix ev
  assume "\<forall>f \<in> set (frames p). concat (map (script_events deskline_ld) (ld_scripts f)) = []"
    and "ev \<in> set (events (fetchDeskline cityKey (Data p)))"
  then show "\<exists>n. name ev = Some n \<and> trim n \<noteq> []" by (rule fetchDeskline_names)
next
  assume a: "truthy apiKey \<and> (\<forall>i \<in> set items. priceRanges i \<noteq> Some [])"
  then obtain evs where evs: "map_events tm_event items = Inr evs"
    using map_events_total by blast
  with a have "events (fetchTicketmaster apiKey (Data (Some items))) = evs"
    by (simp add: fetchTicketmaster_def)
  with map_events_names [OF evs]
  show "map name (events (fetchTicketmaster apiKey (Data (Some items)))) = map tm_name items"
    by simp
qed

theorem adapter_names_witness:
  "map name (events (fetchGiessenDe decode_plain local_date_time feb
       (Data [li1\<lparr>el_text := ''Konzert 24.02.2026 18:00 Uhr''\<rparr>]))) = [Some ''Konzert im Park'']
   \<and> trim ''Konzert im Park'' \<noteq> []
   \<and> map name (events (fetchDeskline ''marburg'' (Data page1))) = [Some ''Orgelkonzert'']
   \<and> trim ''Orgelkonzert'' \<noteq> []
   \<and> map name (events (fetchTicketmaster (Some ''key'') (Data (Some [item2])))) = [Some ''Stadtfest'']"
proof -
  let ?g = "fetchGiessenDe decode_plain local_date_time feb
       (Data [li1\<lparr>el_text := ''Konzert 24.02.2026 18:00 Uhr''\<rparr>])"
  have g: "map name (events ?g) = [Some ''Konzert im Park'']" by code_simp
  then obtain ev where ev: "events ?g = [ev]" "name ev = Some ''Konzert im Park''" by auto
  have d: "map name (events (fetchDeskline ''marburg'' (Data page1))) = [Some ''Orgelkonzert'']"
    by code_simp
  then obtain dv where dv: "events (fetchDeskline ''marburg'' (Data page1)) = [dv]"
    "name dv = Some ''Orgelkonzert''" by auto
  have h1: "\<forall>f \<in> set (frames page1). concat (map (script_events deskline_ld) (ld_scripts f)) = []"
    by code_simp
  have h2: "truthy (Some ''key'') \<and> (\<forall>i \<in> set [item2]. priceRanges i \<noteq> Some [])"
    by code_simp
  have t: "map tm_name [item2] = [Some ''Stadtfest'']" by code_simp
  note inst = adapter_names [of decode_plain local_date_time feb
      "Data [li1\<lparr>el_text := ''Konzert 24.02.2026 18:00 Uhr''\<rparr>]" page1 "''marburg''"
      "Some ''key''" "[item2]"]
  from inst ev have "trim ''Konzert im Park'' \<noteq> []" by auto
  moreover from inst h1 dv have "trim ''Orgelkonzert'' \<noteq> []" by auto
  moreover from inst h2 t
  have "map name (events (fetchTicketmaster (Some ''key'') (Data (Some [item2])))) = [Some ''Stadtfest'']"
    by simp
  ultimately show ?thesis using g d by blast
qed

text \<open>
  The claim as the specification words it (every adapter drops a record with an empty
  name) fails for the structured API adapter: the item with the name \<open>''\<close> is returned as
  an event with the name \<open>''\<close>.
\<close>

theorem ticketmaster_passes_empty_name:
  "tm_name item1 = Some []
   \<and> map name (events (fetchTicketmaster (Some ''key'') (Data (Some [item2, item1]))))
       = [Some ''Stadtfest'', Some []]
   \<and> trim [] = []"
  by code_simp

section \<open>The date filter of the municipal listing adapter\<close>

text \<open>
  Claim C9.  A candidate item is one for which the callback reaches the date patterns
  (\<open>giessen_name\<close> returns its link and name).  A candidate item whose text yields a date
  is dropped when its effective end is before the start of the range or its start is
  after the end of the range, and is kept otherwise; a candidate item whose text yields no
  date is kept, whatever the range.  So an item that is kept and has a date has an
  effective end that is not before the start of the range and a start that is not after
  its end, and the result for an item without a date is the same for every range.  The
  filter alone: it never skips an item without a date, and it skips a dated item exactly
  when its effective end is before the start of the range or its start is after the end
  of the range.
\<close>

theorem giessen_date_filter:
  "(giessen_item decodeURIComponent getTime dateRange el = Inr (Some ev) \<and> truthy (date ev)
      \<longrightarrow> (\<exists>dateEnd. extract_dates (trim (collapse_ws (el_text el))) = (date ev, dateEnd)
             \<and> \<not> js_less (effective_end getTime (date ev) dateEnd) (start dateRange)
             \<and> \<not> js_less (end' dateRange) (getTime (or_empty (date ev)))))
   \<and> (giessen_name decodeURIComponent el = Inr (Some (a, n))
        \<and> extract_dates (trim (collapse_ws (el_text el))) = (date', dateEnd')
      \<longrightarrow> (if truthy date'
               \<and> (js_less (effective_end getTime date' dateEnd') (start dateRange)
                    \<or> js_less (end' dateRange) (getTime (or_empty date')))
           then giessen_item decodeURIComponent getTime dateRange el = Inr None
           else (\<exists>ev. giessen_item decodeURIComponent getTime dateRange el = Inr (Some ev)
                      \<and> date ev = date')))
   \<and> (giessen_name decodeURIComponent el = Inr (Some (a, n))
        \<and> \<not> truthy (fst (extract_dates (trim (collapse_ws (el_text el)))))
      \<longrightarrow> (\<exists>ev. giessen_item decodeURIComponent getTime dateRange el = Inr (Some ev)
                 \<and> \<not> truthy (date ev)))
   \<and> (giessen_name decodeURIComponent el = Inr None
      \<longrightarrow> giessen_item decodeURIComponent getTime dateRange el = Inr None)
   \<and> (\<not> truthy (fst (extract_dates (trim (collapse_ws (el_text el)))))
      \<longrightarrow> giessen_item decodeURIComponent getTime dateRange el
            = giessen_item decodeURIComponent getTime dateRange' el)
   \<and> (\<not> truthy date' \<longrightarrow> \<not> date_filter_skips getTime dateRange date' dateEnd')
   \<and> (truthy date' \<longrightarrow>
        (date_filter_skips getTime dateRange date' dateEnd'
          \<longleftrightarrow> js_less (effective_end getTime date' dateEnd') (start dateRange)
              \<or> js_less (end' dateRange) (getTime (or_empty date'))))"
proof (intro conjI impI)
  assume a: "giessen_item decodeURIComponent getTime dateRange el = Inr (Some ev) \<and> truthy (date ev)"
  with giessen_item_kept [of decodeURIComponent getTime dateRange el ev]
  obtain dateEnd where "extract_dates (trim (collapse_ws (el_text el))) = (date ev, dateEnd)"
    and "\<not> date_filter_skips getTime dateRange (date ev) dateEnd" by blast
  with a show "\<exists>dateEnd. extract_dates (trim (collapse_ws (el_text el))) = (date ev, dateEnd)
             \<and> \<not> js_less (effective_end getTime (date ev) dateEnd) (start dateRange)
             \<and> \<not> js_less (end' dateRange) (getTime (or_empty (date ev)))"
    by (auto simp: date_filter_skips_iff)
next
  assume "giessen_name decodeURIComponent el = Inr (Some (a, n))
        \<and> extract_dates (trim (collapse_ws (el_text el))) = (date', dateEnd')"
  then show "if truthy date'
               \<and> (js_less (effective_end getTime date' dateEnd') (start dateRange)
                    \<or> js_less (end' dateRange) (getTime (or_empty date')))
           then giessen_item decodeURIComponent getTime dateRange el = Inr None
           else (\<exists>ev. giessen_item decodeURIComponent getTime dateRange el = Inr (Some ev)
                      \<and> date ev = date')"
    by (simp add: giessen_item_cases date_filter_skips_iff)
next
  assume "giessen_name decodeURIComponent el = Inr (Some (a, n))
        \<and> \<not> truthy (fst (extract_dates (trim (collapse_ws (el_text el)))))"
  then show "\<exists>ev. giessen_item decodeURIComponent getTime dateRange el = Inr (Some ev)
                 \<and> \<not> truthy (date ev)"
    by (simp add: giessen_item_cases date_filter_skips_iff)
next
  assume "giessen_name decodeURIComponent el = Inr None"
  then show "giessen_item decodeURIComponent getTime dateRange el = Inr None"
    by (simp add: giessen_item_cases)
next
  assume a: "\<not> truthy (fst (extract_dates (trim (collapse_ws (el_text el)))))"
  obtain dt de where e: "extract_dates (trim (collapse_ws (el_text el))) = (dt, de)"
    by (cases "extract_dates (trim (collapse_ws (el_text el)))") auto
  with a have "date_filter_skips getTime dateRange dt de = date_filter_skips getTime dateRange' dt de"
    by (simp add: date_filter_skips_def)
  with e show "giessen_item decodeURIComponent getTime dateRange el
            = giessen_item decodeURIComponent getTime dateRange' el"
    by (rule giessen_item_range)
next
  assume "\<not> truthy date'"
  then show "\<not> date_filter_skips getTime dateRange date' dateEnd'"
    by (simp add: date_filter_skips_def)
next
  assume "truthy date'"
  then show "date_filter_skips getTime dateRange date' dateEnd'
          \<longleftrightarrow> js_less (effective_end getTime date' dateEnd') (start dateRange)
              \<or> js_less (end' dateRange) (getTime (or_empty date'))"
    by (simp add: date_filter_skips_iff)
qed

theorem giessen_date_filter_witness:
  "giessen_item decode_plain local_date_time feb li2 = Inr (Some li2_event)
   \<and> truthy (date li2_event)
   \<and> giessen_name decode_plain li2 = Inr (Some (a1, Some ''Konzert im Park''))
   \<and> extract_dates (trim (collapse_ws (el_text li2)))
       = (Some ''2026-02-10T00:00:00'', Some ''2026-02-17T00:00:00'')
   \<and> \<not> js_less (effective_end local_date_time (date li2_event) (Some ''2026-02-17T00:00:00''))
            (start feb)
   \<and> \<not> js_less (end' feb) (local_date_time (or_empty (date li2_event)))
   \<and> js_less (effective_end local_date_time
              (Some ''2026-02-10T00:00:00'') (Some ''2026-02-17T00:00:00'')) (start march)
   \<and> giessen_item decode_plain local_date_time march li2 = Inr None
   \<and> giessen_name decode_plain li3 = Inr (Some (a1, Some ''Konzert im Park''))
   \<and> extract_dates (trim (collapse_ws (el_text li3))) = (None, None)
   \<and> (\<exists>ev. giessen_item decode_plain local_date_time march li3 = Inr (Some ev)
            \<and> \<not> truthy (date ev))
   \<and> giessen_item decode_plain local_date_time feb li3
       = giessen_item decode_plain local_date_time march li3
   \<and> \<not> date_filter_skips local_date_time march None None
   \<and> date_filter_skips local_date_time march
         (Some ''2026-02-10T00:00:00'') (Some ''2026-02-17T00:00:00'')"
proof -
  have k: "giessen_item decode_plain local_date_time feb li2 = Inr (Some li2_event)"
    by code_simp
  have t: "truthy (date li2_event)" by code_simp
  have c2: "giessen_name decode_plain li2 = Inr (Some (a1, Some ''Konzert im Park''))"
    by code_simp
  have c3: "giessen_name decode_plain li3 = Inr (Some (a1, Some ''Konzert im Park''))"
    by code_simp
  have x: "extract_dates (trim (collapse_ws (el_text li2)))
       = (Some ''2026-02-10T00:00:00'', Some ''2026-02-17T00:00:00'')" by code_simp
  have x3: "extract_dates (trim (collapse_ws (el_text li3))) = (None, None)" by code_simp
  have d: "date li2_event = Some ''2026-02-10T00:00:00''" by code_simp
  have u: "\<not> truthy (fst (extract_dates (trim (collapse_ws (el_text li3)))))" by code_simp
  have n: "\<not> truthy None" "truthy (Some ''2026-02-10T00:00:00'')" by code_simp+
  have l: "js_less (effective_end local_date_time
              (Some ''2026-02-10T00:00:00'') (Some ''2026-02-17T00:00:00'')) (start march)"
    by code_simp
  from giessen_date_filter [of decode_plain local_date_time feb li2 li2_event] k t x d
  have "\<not> js_less (effective_end local_date_time (date li2_event) (Some ''2026-02-17T00:00:00''))
            (start feb)
     \<and> \<not> js_less (end' feb) (local_date_time (or_empty (date li2_event)))"
    by auto
  moreover
  from giessen_date_filter [of decode_plain local_date_time march li2 _ a1 "Some ''Konzert im Park''"
      "Some ''2026-02-10T00:00:00''" "Some ''2026-02-17T00:00:00''"] c2 x n l
  have "giessen_item decode_plain local_date_time march li2 = Inr None" by simp
  moreover
  from giessen_date_filter [of decode_plain local_date_time march li3 _ a1 "Some ''Konzert im Park''"] c3 u
  have "\<exists>ev. giessen_item decode_plain local_date_time march li3 = Inr (Some ev)
            \<and> \<not> truthy (date ev)" by blast
  moreover from giessen_date_filter [of decode_plain local_date_time feb li3 _ _ _ _ _ march] u
  have "giessen_item decode_plain local_date_time feb li3
       = giessen_item decode_plain local_date_time march li3" by blast
  moreover from giessen_date_filter [of decode_plain local_date_time march _ _ _ _ None None] n
  have "\<not> date_filter_skips local_date_time march None None" by blast
  moreover from giessen_date_filter [of decode_plain local_date_time march _ _ _ _
      "Some ''2026-02-10T00:00:00''" "Some ''2026-02-17T00:00:00''"] n l
  have "date_filter_skips local_date_time march
         (Some ''2026-02-10T00:00:00'') (Some ''2026-02-17T00:00:00'')" by blast
  ultimately show ?thesis using k t x x3 c2 c3 l by blast
qed

section \<open>The category filter\<close>




end
